theory Spec2Isabelle
  imports Complex_Main
begin

section \<open>Conventions of the embedding\<close>

text \<open>
  Python \<open>float\<close> and the \<open>Time\<close> value type are embedded as exact rationals
  (\<open>rat\<close>); Python \<open>int\<close> as \<open>int\<close>; lengths and indices as \<open>nat\<close>. A string is
  a list of characters with code points below 256. An attribute that the code may
  read before it was ever assigned is an \<open>option\<close>, \<open>None\<close> being the unset
  attribute whose read raises \<open>AttributeError\<close>. Exceptions are values of
  \<open>py_error\<close>, returned on the left of a sum.
\<close>

datatype py_error =
  ValueError | TypeError | AttributeError | IndexError | KeyError
  | ZeroDivisionError | MatchNotFoundError

text \<open>Sequencing: the first exception ends the computation.\<close>

definition ebind :: "'e + 'a \<Rightarrow> ('a \<Rightarrow> 'e + 'b) \<Rightarrow> 'e + 'b" where
  "ebind m f = (case m of Inl e \<Rightarrow> Inl e | Inr v \<Rightarrow> f v)"

section \<open>types.py: ValueRangeIncInc\<close>

text \<open>
  The argument of \<open>check\<close> is declared \<open>float | Iterable[float]\<close>. A \<open>float\<close> is
  wrapped in a one-element list; anything else is iterated as it is, so an \<open>int\<close>
  (which is not a \<open>float\<close> and not iterable) raises \<open>TypeError\<close> at the \<open>for\<close>.
\<close>

datatype checked_val = PyFloat rat | PyInt int | PyIterable "rat list"

fun check_for :: "rat \<Rightarrow> rat \<Rightarrow> rat list \<Rightarrow> py_error + unit" where
  "check_for x y [] = Inr ()"
| "check_for x y (v # vs) =
     (if \<not> (x < v \<and> v < y) then Inl ValueError else check_for x y vs)"

fun ValueRangeIncInc_check :: "rat \<Rightarrow> rat \<Rightarrow> checked_val \<Rightarrow> py_error + unit" where
  "ValueRangeIncInc_check x y (PyFloat v) = check_for x y [v]"
| "ValueRangeIncInc_check x y (PyIterable vs) = check_for x y vs"
| "ValueRangeIncInc_check x y (PyInt n) = Inl TypeError"

text \<open>The values that the loop of \<open>check\<close> can reach.\<close>

fun checked_values :: "checked_val \<Rightarrow> rat list" where
  "checked_values (PyFloat v) = [v]"
| "checked_values (PyIterable vs) = vs"
| "checked_values (PyInt n) = []"

section \<open>core.py: the data model\<close>

text \<open>
  Of the 23 fields of \<open>Style\<close> the colours, opacities and the boolean flags are
  opaque values that no operation embedded here reads or writes; they are left out.
\<close>

record Style =
  name :: string
  fontname :: string
  fontsize :: rat
  scale_x :: rat
  scale_y :: rat
  spacing :: rat
  angle :: rat
  outline :: rat
  shadow :: rat
  alignment :: int
  margin_l :: int
  margin_r :: int
  margin_v :: int
  encoding :: int

text \<open>
  \<open>ScriptInfo\<close> and \<open>Meta\<close> as the layout and resampling code read them. A field
  of \<open>ScriptInfo\<close> is \<open>None\<close> when the key was absent from the section (reading it
  raises \<open>AttributeError\<close>); \<open>scaled_border_and_shadow\<close> holds the truth value of
  the tri-state flag. \<open>script_info m = None\<close> is a \<open>Meta\<close> whose \<open>script_info\<close>
  was never assigned.
\<close>

record ScriptInfo =
  play_res_x :: "int option"
  play_res_y :: "int option"
  scaled_border_and_shadow :: "bool option"

record Meta =
  script_info :: "ScriptInfo option"
  fps :: rat

text \<open>The class hierarchy \<open>_PositionedText\<close>, \<open>_AssText\<close>, \<open>Line\<close>, \<open>Word\<close>,
  \<open>_WordElement\<close>, \<open>Syllable\<close>, \<open>Char\<close> as record extensions. The fields \<open>x\<close>, \<open>y\<close>,
  \<open>top\<close>, \<open>i\<close> and \<open>text\<close> carry a suffix.\<close>

record PositionedText =
  x_pos :: "rat option"
  y_pos :: "rat option"
  left :: "rat option"
  center :: "rat option"
  right :: "rat option"
  top_pos :: "rat option"
  middle :: "rat option"
  bottom :: "rat option"

record AssText = PositionedText +
  i_idx :: nat
  start_time :: rat
  end_time :: rat
  duration :: "rat option"
  text_str :: string
  style :: "Style option"
  meta :: "Meta option"
  width :: rat
  height :: rat
  ascent :: rat
  descent :: rat
  internal_leading :: rat
  external_leading :: rat

record Word = AssText +
  prespace :: "nat option"
  postspace :: "nat option"

record WordElement = Word +
  word_i :: nat
  inline_fx :: "string list option"

record Syllable = WordElement +
  tags :: "string list option"

record Char = WordElement +
  syl_i :: "nat option"
  syl_char_i :: "nat option"

section \<open>core.py: PList.strip_empty\<close>

text \<open>\<open>str.isspace\<close> of one character, for code points below 256.\<close>

definition py_isspace :: "char \<Rightarrow> bool" where
  "py_isspace c = (of_char c \<in> {9, 10, 11, 12, 13, 28, 29, 30, 31, 32, 133, 160 :: nat})"

definition py_strip :: "string \<Rightarrow> string" where
  "py_strip s = rev (dropWhile py_isspace (rev (dropWhile py_isspace s)))"

text \<open>The test of \<open>strip_empty\<close>: \<open>x.text.strip() != '' and x.duration > 0\<close>. An
  unset \<open>duration\<close> raises.\<close>

definition keeps :: "'a AssText_scheme \<Rightarrow> py_error + bool" where
  "keeps u = (if py_strip (text_str u) \<noteq> [] then
                (case duration u of None \<Rightarrow> Inl AttributeError | Some d \<Rightarrow> Inr (d > 0))
              else Inr False)"

text \<open>
  \<open>for x in data: if not (...): data.remove(x)\<close>. The iterator of a list (and of a
  \<open>UserList\<close>, through \<open>Sequence.__iter__\<close>) is a position \<open>pos\<close> into the list as it
  is at that moment: it yields \<open>data[pos]\<close> while \<open>pos < len(data)\<close>, then advances.
  \<open>remove\<close> deletes the first element equal to \<open>x\<close>; equality of units is
  \<open>_DataCore.__eq__\<close>, attribute by attribute.
\<close>

function strip_for :: "nat \<Rightarrow> 'a AssText_scheme list \<Rightarrow> 'a AssText_scheme list \<times> py_error option" where
  "strip_for pos data =
     (if pos < length data then
        (case keeps (data ! pos) of
           Inl e \<Rightarrow> (data, Some e)
         | Inr True \<Rightarrow> strip_for (Suc pos) data
         | Inr False \<Rightarrow> strip_for (Suc pos) (remove1 (data ! pos) data))
      else (data, None))"
  by pat_completeness auto
termination
  by (relation "measure (\<lambda>(pos, data). length data - pos)")
     (auto simp: length_remove1)

declare strip_for.simps [simp del]

text \<open>
  The store of list objects: an address is an index into the store, and allocating
  appends. A \<open>PList\<close> is the address of its \<open>data\<close> list. \<open>self.copy()\<close> and
  \<open>self.__class__(data)\<close> both allocate a list with the same elements.
  \<open>strip_empty\<close> returns the store it leaves behind and either the exception or the
  returned object (\<open>None\<close> for Python's \<open>None\<close>, \<open>Some a\<close> for the list at address
  \<open>a\<close>).
\<close>

type_synonym 'a store = "'a list list"

definition alloc :: "'a list \<Rightarrow> 'a store \<Rightarrow> nat \<times> 'a store" where
  "alloc xs st = (length st, st @ [xs])"

definition strip_empty ::
  "'a AssText_scheme store \<Rightarrow> nat \<Rightarrow> bool \<Rightarrow> 'a AssText_scheme store \<times> (py_error + nat option)" where
  "strip_empty st self return_new =
     (if return_new then
        (let (data, st1) = alloc (st ! self) st;
             (xs, err) = strip_for 0 (st1 ! data);
             st2 = st1[data := xs]
         in case err of
              Some e \<Rightarrow> (st2, Inl e)
            | None \<Rightarrow> (let (new, st3) = alloc (st2 ! data) st2 in (st3, Inr (Some new))))
      else
        (let (xs, err) = strip_for 0 (st ! self);
             st1 = st[self := xs]
         in case err of
              Some e \<Rightarrow> (st1, Inl e)
            | None \<Rightarrow> (st1, Inr None)))"

text \<open>A unit with the given text, duration and index, and nothing else set.\<close>

definition bare_unit :: "string \<Rightarrow> rat \<Rightarrow> nat \<Rightarrow> AssText" where
  "bare_unit t d n =
     \<lparr>x_pos = None, y_pos = None, left = None, center = None, right = None,
      top_pos = None, middle = None, bottom = None, i_idx = n, start_time = 0,
      end_time = d, duration = Some d, text_str = t, style = None, meta = None,
      width = 0, height = 0, ascent = 0, descent = 0, internal_leading = 0,
      external_leading = 0\<rparr>"

section \<open>Numbers and the default style\<close>

text \<open>\<open>round(x)\<close> of a float: the nearest integer, a tie going to the even one.\<close>

definition py_round :: "rat \<Rightarrow> int" where
  "py_round v =
     (let f = \<lfloor>v\<rfloor>; d = v - of_int f
      in if d < 1 / 2 then f
         else if 1 / 2 < d then f + 1
         else if even f then f else f + 1)"

text \<open>True division \<open>a / b\<close> of two numbers.\<close>

definition py_truediv :: "rat \<Rightarrow> rat \<Rightarrow> py_error + rat" where
  "py_truediv a b = (if b = 0 then Inl ZeroDivisionError else Inr (a / b))"

text \<open>The default style of \<open>Style.get_default\<close> (numeric fields).\<close>

definition default_style :: Style where
  "default_style =
     \<lparr>name = ''Default'', fontname = ''Arial'', fontsize = 20, scale_x = 100,
      scale_y = 100, spacing = 0, angle = 0, outline = 2, shadow = 2, alignment = 2,
      margin_l = 10, margin_r = 10, margin_v = 10, encoding = 1\<rparr>"


section \<open>Strings and numbers of Python\<close>

abbreviation BSLASH :: char where "BSLASH \<equiv> CHR 0x5C"
abbreviation NEWLINE :: char where "NEWLINE \<equiv> CHR 0x0A"

definition is_digit :: "char \<Rightarrow> bool" where
  "is_digit c = (48 \<le> (of_char c :: nat) \<and> (of_char c :: nat) \<le> 57)"

definition dec_val :: "string \<Rightarrow> nat" where
  "dec_val ds = foldl (\<lambda>a c. 10 * a + (of_char c - 48)) 0 ds"

text \<open>\<open>str.isspace()\<close>: not empty and every character white space.\<close>

definition str_isspace :: "string \<Rightarrow> bool" where
  "str_isspace s = (s \<noteq> [] \<and> list_all py_isspace s)"

text \<open>\<open>s.split(sep)\<close> for a one-character separator.\<close>

fun py_split :: "char \<Rightarrow> string \<Rightarrow> string list" where
  "py_split sep [] = [[]]"
| "py_split sep (c # cs) =
     (if c = sep then [] # py_split sep cs
      else (case py_split sep cs of w # ws \<Rightarrow> (c # w) # ws | [] \<Rightarrow> [[c]]))"

text \<open>\<open>sep.join(xs)\<close>.\<close>

fun py_join :: "string \<Rightarrow> string list \<Rightarrow> string" where
  "py_join sep [] = []"
| "py_join sep [w] = w"
| "py_join sep (w # ws) = w @ sep @ py_join sep ws"

text \<open>\<open>s.replace(old, new)\<close>: the occurrences of \<open>old\<close> from left to right, not
  overlapping; an empty \<open>old\<close> matches before every character and at the end.\<close>

function py_replace :: "string \<Rightarrow> string \<Rightarrow> string \<Rightarrow> string" where
  "py_replace old new s =
     (if old = [] then new @ concat (map (\<lambda>c. c # new) s)
      else if s = [] then []
      else if take (length old) s = old then new @ py_replace old new (drop (length old) s)
      else hd s # py_replace old new (tl s))"
  by pat_completeness auto
termination
  by (relation "measure (\<lambda>(old, new, s). length s)") auto

declare py_replace.simps [simp del]

text \<open>\<open>xs[i]\<close> for \<open>i \<ge> 0\<close>.\<close>

definition py_index :: "'a list \<Rightarrow> nat \<Rightarrow> py_error + 'a" where
  "py_index xs i = (if i < length xs then Inr (xs ! i) else Inl IndexError)"

text \<open>
  \<open>int(s)\<close> of a string: white space around is stripped, an optional sign, then
  decimal digits, where single underscores may stand between digits.
\<close>

fun int_body_ok :: "string \<Rightarrow> bool" where
  "int_body_ok [] = False"
| "int_body_ok [c] = is_digit c"
| "int_body_ok (c # d # cs) =
     (is_digit c \<and> (if d = CHR ''_'' then int_body_ok cs else int_body_ok (d # cs)))"

definition py_int :: "string \<Rightarrow> py_error + int" where
  "py_int s =
     (let t = py_strip s;
          (neg, body) = (case t of
                           c # cs \<Rightarrow> if c = CHR ''-'' then (True, cs)
                                     else if c = CHR ''+'' then (False, cs) else (False, t)
                         | [] \<Rightarrow> (False, t))
      in if int_body_ok body
         then (let n = int (dec_val (filter is_digit body)) in Inr (if neg then - n else n))
         else Inl ValueError)"

section \<open>ptime.Time\<close>

text \<open>
  Modelled from the spec: the module \<open>ptime\<close> (\<open>Time\<close>, \<open>Time.from_ts\<close>,
  \<open>Time.from_assts\<close>) is not among the sources. The spec gives a \<open>Time\<close> as a
  non-negative number of seconds, built from a plain number or from a timestamp
  \<open>H:MM:SS.CC\<close>, with arithmetic that is clamped at zero on underflow and a
  malformed timestamp as a fatal error. \<open>Time.from_assts\<close> (frame snapping) is a
  parameter of the functions that call it.
\<close>

definition Time_add :: "rat \<Rightarrow> rat \<Rightarrow> rat" where
  "Time_add a b = max 0 (a + b)"

definition Time_sub :: "rat \<Rightarrow> rat \<Rightarrow> rat" where
  "Time_sub a b = max 0 (a - b)"

definition Time_from_ts :: "string \<Rightarrow> py_error + rat" where
  "Time_from_ts ts =
     (case py_split (CHR '':'') ts of
        [h, m, s] \<Rightarrow>
          (case py_split (CHR ''.'') s of
             [ss, cc] \<Rightarrow>
               (if h \<noteq> [] \<and> list_all is_digit (h @ m @ ss @ cc)
                   \<and> length m = 2 \<and> length ss = 2 \<and> length cc = 2
                then Inr (of_nat (dec_val h) * 3600 + of_nat (dec_val m) * 60
                          + of_nat (dec_val ss) + of_nat (dec_val cc) / 100)
                else Inl ValueError)
           | _ \<Rightarrow> Inl ValueError)
      | _ \<Rightarrow> Inl ValueError)"

section \<open>core.py: Line\<close>

text \<open>
  The external font collaborator: \<open>text_extents(text)\<close> gives \<open>(width, height)\<close>,
  \<open>metrics\<close> gives \<open>(ascent, descent, internal_leading, external_leading)\<close>.
\<close>

record Font =
  text_extents :: "string \<Rightarrow> rat \<times> rat"
  metrics :: "rat \<times> rat \<times> rat \<times> rat"

text \<open>
  The margins of a \<open>Line\<close> carry the prefix \<open>line_\<close>, the names \<open>margin_l\<close>,
  \<open>margin_r\<close>, \<open>margin_v\<close> being those of \<open>Style\<close>. \<open>words\<close>, \<open>syls\<close> and \<open>chars\<close>
  are unset until the pass that fills them has run.
\<close>

record Line = AssText +
  comment :: bool
  layer :: int
  leadin :: "rat option"
  leadout :: "rat option"
  actor :: string
  line_margin_l :: int
  line_margin_r :: int
  line_margin_v :: int
  effect :: string
  raw_text :: string
  words :: "Word list option"
  syls :: "Syllable list option"
  chars :: "Char list option"

text \<open>The alignment classes of \<open>Style\<close>.\<close>

definition an_is_left :: "Style \<Rightarrow> bool" where "an_is_left s = (alignment s \<in> {1, 4, 7})"
definition an_is_center :: "Style \<Rightarrow> bool" where "an_is_center s = (alignment s \<in> {2, 5, 8})"
definition an_is_top :: "Style \<Rightarrow> bool" where "an_is_top s = (alignment s \<in> {7, 8, 9})"
definition an_is_middle :: "Style \<Rightarrow> bool" where "an_is_middle s = (alignment s \<in> {4, 5, 6})"
definition an_is_bottom :: "Style \<Rightarrow> bool" where "an_is_bottom s = (alignment s \<in> {1, 2, 3})"

text \<open>\<open>_styles_to_map(styles)[key]\<close>: of several styles with one name the dict
  keeps the last.\<close>

definition styles_lookup :: "Style list \<Rightarrow> string \<Rightarrow> Style option" where
  "styles_lookup styles key = (case filter (\<lambda>s. name s = key) styles of [] \<Rightarrow> None | ss \<Rightarrow> Some (last ss))"

text \<open>
  The match of \<open>(Dialogue|Comment): (.+?)$\<close> at the start of the text. The dot
  takes no newline, and \<open>$\<close> stands at the end of the text or before a newline that
  ends it: the second group is the rest of the text, without a final newline, and
  it must be non-empty and free of newlines.
\<close>

definition line_header :: "string \<Rightarrow> (string \<times> string) option" where
  "line_header t =
     (if take 10 t = ''Dialogue: '' then Some (''Dialogue'', drop 10 t)
      else if take 9 t = ''Comment: '' then Some (''Comment'', drop 9 t)
      else None)"

definition match_line :: "string \<Rightarrow> (string \<times> string) option" where
  "match_line t =
     (case line_header t of
        None \<Rightarrow> None
      | Some (kind, rest) \<Rightarrow>
          (let body = (if rest \<noteq> [] \<and> last rest = NEWLINE then butlast rest else rest)
           in if body \<noteq> [] \<and> NEWLINE \<notin> set body then Some (kind, body) else None))"

text \<open>A freshly constructed object: no attribute assigned. The measured extents
  are written before they are read in every pass, and start at 0 here.\<close>

definition new_AssText :: AssText where
  "new_AssText =
     \<lparr>x_pos = None, y_pos = None, left = None, center = None, right = None,
      top_pos = None, middle = None, bottom = None, i_idx = 0, start_time = 0,
      end_time = 0, duration = None, text_str = [], style = None, meta = None,
      width = 0, height = 0, ascent = 0, descent = 0, internal_leading = 0,
      external_leading = 0\<rparr>"

definition Line_from_text ::
  "(string \<Rightarrow> rat \<Rightarrow> bool \<Rightarrow> py_error + rat) \<Rightarrow>
   string \<Rightarrow> nat \<Rightarrow> rat \<Rightarrow> Meta option \<Rightarrow> Style list option \<Rightarrow> bool \<Rightarrow> py_error + Line" where
  "Line_from_text from_assts text i fps_arg meta_arg styles fix_timestamps =
     (case match_line text of
        None \<Rightarrow> Inl MatchNotFoundError
      | Some (kind, body) \<Rightarrow>
     (let linesplit = py_split (CHR '','') body in
      ebind (py_index linesplit 0) (\<lambda>f0.
      ebind (py_int f0) (\<lambda>layer_v.
      ebind (py_index linesplit 1) (\<lambda>f1.
      ebind (if fix_timestamps then from_assts f1 fps_arg True else Time_from_ts f1) (\<lambda>start.
      ebind (py_index linesplit 2) (\<lambda>f2.
      ebind (if fix_timestamps then from_assts f2 fps_arg False else Time_from_ts f2) (\<lambda>finish.
      ebind (py_index linesplit 4) (\<lambda>f4.
      ebind (py_index linesplit 5) (\<lambda>f5.
      ebind (py_int f5) (\<lambda>ml.
      ebind (py_index linesplit 6) (\<lambda>f6.
      ebind (py_int f6) (\<lambda>mr.
      ebind (py_index linesplit 7) (\<lambda>f7.
      ebind (py_int f7) (\<lambda>mv.
      ebind (py_index linesplit 8) (\<lambda>f8.
      (let raw = py_join '','' (drop 9 linesplit);
           style_v =
             (case styles of
                None \<Rightarrow> None
              | Some [] \<Rightarrow> None
              | Some sts \<Rightarrow>
                  (case styles_lookup sts (linesplit ! 3) of
                     Some s \<Rightarrow> Some s
                   | None \<Rightarrow>
                       (case styles_lookup sts ''Default'' of
                          Some d \<Rightarrow> Some (d\<lparr>name := linesplit ! 3\<rparr>)
                        | None \<Rightarrow> Some (default_style\<lparr>name := linesplit ! 3\<rparr>))))
       in Inr (AssText.extend
                 (new_AssText\<lparr>i_idx := i, start_time := start, end_time := finish,
                    duration := Some (Time_sub finish start), text_str := raw,
                    style := style_v, meta := meta_arg\<rparr>)
                 (Line.fields (kind = ''Comment'') layer_v None None f4 ml mr mv f8 raw
                    None None None)))))))))))))))))))"

subsection \<open>Line.add_data\<close>

text \<open>
  \<open>re.sub(r"\{.*?\}", "", s)\<close>: from an opening brace to the first closing brace
  after it, if no newline stands between them (the dot takes no newline);
  an opening brace without such a partner stays.
\<close>

fun find_close :: "string \<Rightarrow> string option" where
  "find_close [] = None"
| "find_close (c # cs) =
     (if c = CHR ''}'' then Some cs
      else if c = NEWLINE then None
      else find_close cs)"

function strip_tags :: "string \<Rightarrow> string" where
  "strip_tags [] = []"
| "strip_tags (c # cs) =
     (if c = CHR ''{'' then
        (case find_close cs of
           Some rest \<Rightarrow> strip_tags rest
         | None \<Rightarrow> c # strip_tags cs)
      else c # strip_tags cs)"
  by pat_completeness auto
termination
proof (relation "measure length")
  fix c :: char and cs rest :: string
  assume "find_close cs = Some rest"
  then have "length rest \<le> length cs"
    by (induction cs) (auto split: if_splits)
  then show "(rest, c # cs) \<in> measure length" by simp
qed simp_all

text \<open>What the \<open>try\<close> block of the layout passes reads: the play resolution and
  the style. \<open>None\<close> is the \<open>AttributeError\<close> that makes the pass return early.\<close>

definition play_res_of :: "Meta option \<Rightarrow> (int \<times> int) option" where
  "play_res_of m =
     (case m of
        None \<Rightarrow> None
      | Some mt \<Rightarrow>
          (case script_info mt of
             None \<Rightarrow> None
           | Some si \<Rightarrow>
               (case (play_res_x si, play_res_y si) of
                  (Some px, Some py) \<Rightarrow> Some (px, py)
                | _ \<Rightarrow> None)))"

text \<open>\<open>meta.script_info.play_res_x\<close> and \<open>meta.script_info.play_res_y\<close> read
  on their own.\<close>

definition play_res_x_of :: "Meta \<Rightarrow> int option" where
  "play_res_x_of mt = (case script_info mt of None \<Rightarrow> None | Some si \<Rightarrow> play_res_x si)"

definition play_res_y_of :: "Meta \<Rightarrow> int option" where
  "play_res_y_of mt = (case script_info mt of None \<Rightarrow> None | Some si \<Rightarrow> play_res_y si)"

definition add_data :: "Font \<Rightarrow> Line \<Rightarrow> Line" where
  "add_data font self =
     (let txt = strip_tags (raw_text self);
          (w, h) = text_extents font txt;
          (asc, desc, il, el) = metrics font;
          l1 = self\<lparr>text_str := txt, width := w, height := h, ascent := asc,
                    descent := desc, internal_leading := il, external_leading := el\<rparr>
      in case (play_res_of (meta l1), style l1) of
           (Some (prx, pry), Some st) \<Rightarrow>
             (let ml = (if line_margin_l l1 \<noteq> 0 then line_margin_l l1 else margin_l st);
                  mr = (if line_margin_r l1 \<noteq> 0 then line_margin_r l1 else margin_r st);
                  lf = (if an_is_left st then of_int ml
                        else if an_is_center st
                        then of_int prx / 2 - w / 2 + of_int ml / 2 - of_int mr / 2
                        else of_int prx - of_int mr - w);
                  l2 = l1\<lparr>left := Some lf, center := Some (lf + w / 2), right := Some (lf + w),
                          x_pos := (if an_is_left st then Some lf
                                    else if an_is_center st then Some (lf + w / 2)
                                    else Some (lf + w))\<rparr>;
                  mv = (if line_margin_v l1 \<noteq> 0 then line_margin_v l1 else margin_v st);
                  tp = (if an_is_top st then of_int mv
                        else if an_is_middle st then of_int pry / 2 - h / 2
                        else of_int pry - of_int mv - h)
              in l2\<lparr>top_pos := Some tp, middle := Some (tp + h / 2), bottom := Some (tp + h),
                     y_pos := (if an_is_top st then Some tp
                               else if an_is_middle st then Some (tp + h / 2)
                               else Some (tp + h))\<rparr>)
         | _ \<Rightarrow> l1)"

subsection \<open>Loops over units\<close>

text \<open>
  A \<open>for\<close> loop that updates the units of a list in place and carries a cursor.
  The body returns the unit as it leaves it and either the exception it raised
  or the next cursor. After an exception the remaining units are untouched.
\<close>

fun for_units :: "('s \<Rightarrow> 'a \<Rightarrow> 'a \<times> (py_error + 's)) \<Rightarrow> 's \<Rightarrow> 'a list \<Rightarrow> 'a list \<times> py_error option" where
  "for_units body s [] = ([], None)"
| "for_units body s (u # us) =
     (case body s u of
        (u', Inl e) \<Rightarrow> (u' # us, Some e)
      | (u', Inr s') \<Rightarrow> (case for_units body s' us of (us', r) \<Rightarrow> (u' # us', r)))"

text \<open>Reading an attribute inside a loop body: unset raises \<open>AttributeError\<close> and
  leaves the unit as it is at that point.\<close>

definition need :: "'b option \<Rightarrow> 'a \<Rightarrow> ('b \<Rightarrow> 'a \<times> (py_error + 's)) \<Rightarrow> 'a \<times> (py_error + 's)" where
  "need v u k = (case v of None \<Rightarrow> (u, Inl AttributeError) | Some b \<Rightarrow> k b)"

text \<open>The vertical fields of a unit copied from the line: \<open>top\<close>, \<open>middle\<close>,
  \<open>bottom\<close>, \<open>y\<close>, in this order.\<close>

definition copy_vertical ::
  "Line \<Rightarrow> 'a PositionedText_scheme \<Rightarrow> 's \<Rightarrow> 'a PositionedText_scheme \<times> (py_error + 's)" where
  "copy_vertical self u s =
     need (top_pos self) u (\<lambda>t.
     need (middle self) (u\<lparr>top_pos := Some t\<rparr>) (\<lambda>m.
     need (bottom self) (u\<lparr>top_pos := Some t, middle := Some m\<rparr>) (\<lambda>b.
     need (y_pos self) (u\<lparr>top_pos := Some t, middle := Some m, bottom := Some b\<rparr>) (\<lambda>y.
       (u\<lparr>top_pos := Some t, middle := Some m, bottom := Some b, y_pos := Some y\<rparr>, Inr s)))))"

text \<open>\<open>left\<close>, \<open>center\<close>, \<open>right\<close> from a left edge and the unit's width.\<close>

definition set_horizontal :: "rat \<Rightarrow> 'a AssText_scheme \<Rightarrow> 'a AssText_scheme" where
  "set_horizontal lf u =
     u\<lparr>left := Some lf, center := Some (lf + width u / 2), right := Some (lf + width u)\<rparr>"

text \<open>\<open>if an_is_left: x = left elif an_is_center: x = center else: x = right\<close>.\<close>

definition set_x :: "Style \<Rightarrow> 'a AssText_scheme \<Rightarrow> 'a AssText_scheme" where
  "set_x st u =
     u\<lparr>x_pos := (if an_is_left st then left u
                 else if an_is_center st then center u
                 else right u)\<rparr>"

text \<open>The vertical fields of a stacked unit, from the cursor \<open>cur_y\<close>.\<close>

definition set_stacked :: "rat \<Rightarrow> 'a AssText_scheme \<Rightarrow> 'a AssText_scheme" where
  "set_stacked cur_y u =
     u\<lparr>top_pos := Some cur_y, middle := Some (cur_y + height u / 2),
       bottom := Some (cur_y + height u), y_pos := Some (cur_y + height u / 2)\<rparr>"

text \<open>\<open>max(u.width for u in units)\<close> raises \<open>ValueError\<close> on no units;
  \<open>sum((u.height for u in units), 0.)\<close>.\<close>

definition max_width_of :: "'a AssText_scheme list \<Rightarrow> py_error + rat" where
  "max_width_of us = (case us of [] \<Rightarrow> Inl ValueError | u # r \<Rightarrow> Inr (fold max (map width r) (width u)))"

definition sum_height_of :: "'a AssText_scheme list \<Rightarrow> rat" where
  "sum_height_of us = fold (\<lambda>u a. a + height u) us 0"

subsection \<open>Line.add_words\<close>

text \<open>
  \<open>re.finditer(r"(\s*)([^\s]+)(\s*)", text)\<close>: white space, a run of other
  characters, white space, each as long as possible. A match ends after the white
  space that follows the word, so every match but the first has an empty first
  group; where only white space is left there is no further match.
\<close>

function words_finditer :: "string \<Rightarrow> (string \<times> string \<times> string) list" where
  "words_finditer s =
     (let pre = takeWhile py_isspace s;
          r1 = dropWhile py_isspace s;
          w = takeWhile (\<lambda>c. \<not> py_isspace c) r1;
          r2 = dropWhile (\<lambda>c. \<not> py_isspace c) r1;
          post = takeWhile py_isspace r2;
          r3 = dropWhile py_isspace r2
      in if w = [] then [] else (pre, w, post) # words_finditer r3)"
  by pat_completeness auto
termination
proof (relation "measure length")
  fix s pre r1 w r2 post r3 :: string
  assume a: "r1 = dropWhile py_isspace s"
     "w = takeWhile (\<lambda>c. \<not> py_isspace c) r1"
     "r2 = dropWhile (\<lambda>c. \<not> py_isspace c) r1"
     "r3 = dropWhile py_isspace r2" "w \<noteq> []"
  have "length r1 = length w + length r2"
    using a(2,3) takeWhile_dropWhile_id [of "\<lambda>c. \<not> py_isspace c" r1]
    by (metis length_append)
  moreover have "length r3 \<le> length r2" using a(4) by (simp add: length_dropWhile_le)
  moreover have "length r1 \<le> length s" using a(1) by (simp add: length_dropWhile_le)
  ultimately show "(r3, s) \<in> measure length" using a(5) by (cases w) simp_all
qed simp

declare words_finditer.simps [simp del]

definition new_Word :: Word where
  "new_Word = AssText.extend new_AssText (Word.fields None None)"

text \<open>The first loop: one \<open>Word\<close> per match. Reading \<open>self.duration\<close>, \<open>self.meta\<close>
  or \<open>self.style\<close> raises when the line does not have it.\<close>

definition make_word :: "Font \<Rightarrow> Line \<Rightarrow> rat \<Rightarrow> Meta \<Rightarrow> Style \<Rightarrow> nat \<times> (string \<times> string \<times> string) \<Rightarrow> Word" where
  "make_word font self dur mt st m =
     (case m of (wi, pre, word_text, post) \<Rightarrow>
        (let (w, h) = text_extents font word_text;
             (asc, desc, il, el) = metrics font
         in new_Word\<lparr>i_idx := wi, start_time := start_time self, end_time := end_time self,
               duration := Some dur, text_str := word_text, style := Some st, meta := Some mt,
               width := w, height := h, ascent := asc, descent := desc,
               internal_leading := il, external_leading := el,
               prespace := Some (length pre), postspace := Some (length post)\<rparr>))"

definition word_step_h :: "Line \<Rightarrow> Style \<Rightarrow> rat \<Rightarrow> rat \<Rightarrow> Word \<Rightarrow> Word \<times> (py_error + rat)" where
  "word_step_h self st space_width cur_x word =
     need (prespace word) word (\<lambda>pre.
       (let x1 = cur_x + of_nat pre * space_width + spacing st;
            w1 = set_x st (set_horizontal x1 word)
        in case copy_vertical self w1 () of
             (w2, Inl e) \<Rightarrow> (w2, Inl e)
           | (w2, Inr _) \<Rightarrow>
               need (postspace w2) w2 (\<lambda>post.
                 (w2, Inr (x1 + width w2 + of_nat post * (space_width + spacing st) + spacing st)))))"

definition word_step_v :: "Line \<Rightarrow> Style \<Rightarrow> int \<Rightarrow> rat \<Rightarrow> rat \<Rightarrow> Word \<Rightarrow> Word \<times> (py_error + rat)" where
  "word_step_v self st prx max_width cur_y word =
     (let x_fix = (max_width - width word) / 2;
          placed =
            (if alignment st = 4 then
               need (left self) word (\<lambda>lf.
                 ((set_horizontal (lf + x_fix) word)\<lparr>x_pos := Some (lf + x_fix)\<rparr>, Inr ()))
             else if alignment st = 5 then
               (let lf = of_int prx / 2 - width word / 2
                in ((set_horizontal lf word)\<lparr>x_pos := Some (lf + width word / 2)\<rparr>, Inr ()))
             else
               need (right self) word (\<lambda>rt.
                 (let lf = rt - width word - x_fix
                  in ((set_horizontal lf word)\<lparr>x_pos := Some (lf + width word)\<rparr>, Inr ()))))
      in case placed of
           (w1, Inl e) \<Rightarrow> (w1, Inl e)
         | (w1, Inr _) \<Rightarrow> (set_stacked cur_y w1, Inr (cur_y + height w1)))"

definition add_words :: "Font \<Rightarrow> Line \<Rightarrow> Line \<times> py_error option" where
  "add_words font self =
     (let ms = words_finditer (text_str self) in
      case (if ms = [] then Inr []
            else (case (duration self, meta self, style self) of
                    (Some dur, Some mt, Some st) \<Rightarrow>
                      Inr (map (make_word font self dur mt st) (enumerate 0 ms))
                  | _ \<Rightarrow> Inl AttributeError)) of
        Inl e \<Rightarrow> (self\<lparr>words := Some []\<rparr>, Some e)
      | Inr ws \<Rightarrow>
          (case (play_res_of (meta self), style self) of
             (Some (prx, pry), Some st) \<Rightarrow>
               (let space_width = fst (text_extents font '' '') in
                if an_is_top st \<or> an_is_bottom st then
                  (case left self of
                     None \<Rightarrow> (self\<lparr>words := Some ws\<rparr>, Some AttributeError)
                   | Some cur_x \<Rightarrow>
                       (case for_units (word_step_h self st space_width) cur_x ws of
                          (ws', r) \<Rightarrow> (self\<lparr>words := Some ws'\<rparr>, r)))
                else
                  (case max_width_of ws of
                     Inl e \<Rightarrow> (self\<lparr>words := Some ws\<rparr>, Some e)
                   | Inr max_width \<Rightarrow>
                       (case for_units (word_step_v self st prx max_width)
                               (of_int pry / 2 - sum_height_of ws / 2) ws of
                          (ws', r) \<Rightarrow> (self\<lparr>words := Some ws'\<rparr>, r))))
           | _ \<Rightarrow> (self\<lparr>words := Some ws\<rparr>, None)))"


subsection \<open>Line.add_syls\<close>

text \<open>
  One match of
  \<open>{(?P<pretags>.*?)\\[kK][of]?(?P<kdur>\d+)(?P<posttags>[^}]*)}(?P<syltext>[^{]*)\<close>.
\<close>

record kmatch =
  pretags :: string
  kdur :: string
  posttags :: string
  syltext :: string

text \<open>
  The part of the pattern from the backslash on, tried at the head of a string:
  a backslash, \<open>k\<close> or \<open>K\<close>, at most one of \<open>o\<close> and \<open>f\<close>, all the digits that follow
  (at least one), everything up to the first closing brace, that brace, and
  everything up to the next opening brace. Giving back digits or characters to
  an earlier group cannot make a failed attempt succeed, so the greedy choice is
  the match. The result is the three groups and the text left after the match.
\<close>

definition match_ktag :: "string \<Rightarrow> (string \<times> string \<times> string \<times> string) option" where
  "match_ktag s =
     (case s of
        b # k # r \<Rightarrow>
          (if b = BSLASH \<and> (k = CHR ''k'' \<or> k = CHR ''K'') then
             (let r1 = (case r of
                          c # r' \<Rightarrow> if c = CHR ''o'' \<or> c = CHR ''f'' then r' else r
                        | [] \<Rightarrow> r);
                  ds = takeWhile is_digit r1;
                  r2 = dropWhile is_digit r1;
                  pt = takeWhile (\<lambda>c. c \<noteq> CHR ''}'') r2;
                  r3 = dropWhile (\<lambda>c. c \<noteq> CHR ''}'') r2
              in if ds = [] then None
                 else (case r3 of
                         [] \<Rightarrow> None
                       | _ # r4 \<Rightarrow>
                           Some (ds, pt, takeWhile (\<lambda>c. c \<noteq> CHR ''{'') r4,
                                 dropWhile (\<lambda>c. c \<noteq> CHR ''{'') r4)))
           else None)
      | _ \<Rightarrow> None)"

text \<open>The lazy \<open>pretags\<close> after an opening brace: the shortest run without a
  newline after which the rest of the pattern matches.\<close>

fun match_pretags :: "string \<Rightarrow> (kmatch \<times> string) option" where
  "match_pretags [] = None"
| "match_pretags (c # cs) =
     (case match_ktag (c # cs) of
        Some (ds, pt, st, rest) \<Rightarrow>
          Some (\<lparr>pretags = [], kdur = ds, posttags = pt, syltext = st\<rparr>, rest)
      | None \<Rightarrow>
          (if c = NEWLINE then None
           else (case match_pretags cs of
                   Some (m, rest) \<Rightarrow> Some (m\<lparr>pretags := c # pretags m\<rparr>, rest)
                 | None \<Rightarrow> None)))"

text \<open>\<open>finditer\<close>: the matches from left to right, each search starting where the
  match before it ended.\<close>

function syldata_finditer :: "string \<Rightarrow> kmatch list" where
  "syldata_finditer [] = []"
| "syldata_finditer (c # cs) =
     (if c = CHR ''{'' then
        (case match_pretags cs of
           Some (m, rest) \<Rightarrow> m # syldata_finditer rest
         | None \<Rightarrow> syldata_finditer cs)
      else syldata_finditer cs)"
  by pat_completeness auto
termination
proof (relation "measure length")
  fix c :: char and cs rest :: string and m :: kmatch and x
  assume "match_pretags cs = Some x" "(m, rest) = x"
  then have mp: "match_pretags cs = Some (m, rest)" by simp
  have kt: "\<And>s ds pt st r. match_ktag s = Some (ds, pt, st, r) \<Longrightarrow> length r \<le> length s"
  proof -
    fix s ds pt st r
    assume a: "match_ktag s = Some (ds, pt, st, r)"
    have d1: "\<And>P (xs :: string). length (dropWhile P xs) \<le> length xs"
      by (simp add: length_dropWhile_le)
    have d2: "\<And>P Q (xs :: string) y ys. dropWhile P (dropWhile Q xs) = y # ys
                \<Longrightarrow> length (dropWhile (\<lambda>c. c \<noteq> CHR ''{'') ys) \<le> length xs"
    proof -
      fix P Q and xs :: string and y ys
      assume e: "dropWhile P (dropWhile Q xs) = y # ys"
      have "length (y # ys) \<le> length xs"
        using d1 [of P "dropWhile Q xs"] d1 [of Q xs] e by simp
      moreover have "length (dropWhile (\<lambda>c. c \<noteq> CHR ''{'') ys) \<le> length ys" by (rule d1)
      ultimately show "length (dropWhile (\<lambda>c. c \<noteq> CHR ''{'') ys) \<le> length xs" by simp
    qed
    from a show "length r \<le> length s"
      by (auto simp: match_ktag_def Let_def split: list.splits if_splits dest!: d2)
  qed
  have "\<And>m rest. match_pretags cs = Some (m, rest) \<Longrightarrow> length rest \<le> length cs"
  proof (induction cs)
    case Nil
    then show ?case by simp
  next
    case (Cons a cs)
    show ?case
    proof (cases "match_ktag (a # cs)")
      case (Some t)
      obtain ds pt st r where t: "t = (ds, pt, st, r)" by (cases t) auto
      with Some Cons.prems have "rest = r" by simp
      with kt [of "a # cs" ds pt st r] Some t show ?thesis by simp
    next
      case None
      with Cons.prems obtain m' where "match_pretags cs = Some (m', rest)"
        by (auto split: if_splits option.splits)
      with Cons.IH [of m' rest] show ?thesis by simp
    qed
  qed
  with mp have "length rest \<le> length cs" by blast
  then show "(rest, c # cs) \<in> measure length" by simp
qed simp_all

text \<open>
  The groups of \<open>(\s*).*?(\s*)$\<close> on a text that is neither empty nor all white
  space: the leading and the trailing white space. The dot takes no newline, so
  there is no match (and \<open>prespace\<close>, \<open>postspace\<close> stay unset) when a newline
  stands between the first and the last visible character.
\<close>

definition ppsyl_spaces :: "string \<Rightarrow> (nat \<times> nat) option" where
  "ppsyl_spaces t =
     (if t = [] \<or> str_isspace t then Some (0, 0)
      else (let pre = length (takeWhile py_isspace t);
                post = length (takeWhile py_isspace (rev t));
                core = take (length t - pre - post) (drop pre t)
            in if NEWLINE \<in> set core then None else Some (pre, post)))"

text \<open>\<open>re.split\<close> on a fixed non-empty string, \<open>str.strip(chars)\<close>, and the \<open>add\<close>
  of an ordered set.\<close>

function split_on :: "string \<Rightarrow> string \<Rightarrow> string list" where
  "split_on sep s =
     (if s = [] then [[]]
      else if sep \<noteq> [] \<and> take (length sep) s = sep
      then [] # split_on sep (drop (length sep) s)
      else (case split_on sep (tl s) of
              w # ws \<Rightarrow> (hd s # w) # ws
            | [] \<Rightarrow> [[hd s]]))"
  by pat_completeness auto
termination
  by (relation "measure (\<lambda>(sep, s). length s)") auto

declare split_on.simps [simp del]

definition strip_chars :: "string \<Rightarrow> string \<Rightarrow> string" where
  "strip_chars cs s = rev (dropWhile (\<lambda>c. c \<in> set cs) (rev (dropWhile (\<lambda>c. c \<in> set cs) s)))"

definition oset_add :: "'a \<Rightarrow> 'a list option \<Rightarrow> 'a list option" where
  "oset_add v s = (case s of None \<Rightarrow> Some [v] | Some xs \<Rightarrow> Some (if v \<in> set xs then xs else xs @ [v]))"

text \<open>The loop over the tags of a match: \<open>slash\<close> is the pattern of two
  backslashes.\<close>

definition syl_ptags :: "kmatch \<Rightarrow> string list" where
  "syl_ptags k0 =
     split_on [BSLASH, BSLASH] (py_replace ''}{'' [] (pretags k0))
     @ split_on [BSLASH, BSLASH] (py_replace ''}{'' [] (posttags k0))"

definition add_ptag :: "string \<Rightarrow> Syllable \<Rightarrow> Syllable" where
  "add_ptag ptag syl =
     (if take 2 ptag = [BSLASH, CHR ''-'']
      then syl\<lparr>inline_fx := oset_add (strip_chars [BSLASH, CHR ''-''] ptag) (inline_fx syl)\<rparr>
      else if ptag \<noteq> [] then syl\<lparr>tags := oset_add ptag (tags syl)\<rparr>
      else syl)"

definition new_Syllable :: Syllable where
  "new_Syllable =
     WordElement.extend
       (Word.extend new_Word (WordElement.fields 0 None))
       (Syllable.fields None)"

text \<open>One syllable: indices, text, spaces, extents, times, tags.\<close>

definition make_syl :: "Font \<Rightarrow> nat \<Rightarrow> nat \<Rightarrow> rat \<Rightarrow> kmatch \<Rightarrow> Syllable" where
  "make_syl font si wi last_time k0 =
     (let (w, h) = text_extents font (syltext k0);
          (asc, desc, il, el) = metrics font;
          sp = ppsyl_spaces (syltext k0);
          d = of_nat (dec_val (kdur k0)) / 100;
          syl = new_Syllable\<lparr>i_idx := si, word_i := wi, text_str := syltext k0,
                  prespace := map_option fst sp, postspace := map_option snd sp,
                  width := w, height := h, ascent := asc, descent := desc,
                  internal_leading := il, external_leading := el,
                  start_time := last_time, end_time := Time_add last_time d,
                  duration := Some d\<rparr>
      in fold add_ptag (syl_ptags k0) syl)"

text \<open>The first loop of \<open>add_syls\<close>, over the matches paired with their
  successors; it carries \<open>si\<close>, \<open>word_i\<close> and \<open>last_time\<close>.\<close>

fun syl_loop :: "Font \<Rightarrow> nat \<Rightarrow> nat \<Rightarrow> rat \<Rightarrow> kmatch list \<Rightarrow> Syllable list" where
  "syl_loop font si wi last_time [] = []"
| "syl_loop font si wi last_time (k0 # ks) =
     (let syl = make_syl font si wi last_time k0;
          wi' = (if (syltext k0 \<noteq> [] \<and> last (syltext k0) = CHR '' '')
                    \<or> (case ks of k1 # _ \<Rightarrow> take 1 (syltext k1) = '' '' | [] \<Rightarrow> False)
                 then wi + 1 else wi)
      in syl # syl_loop font (Suc si) wi' (end_time syl) ks)"

definition syl_step_h :: "Line \<Rightarrow> Style \<Rightarrow> Meta \<Rightarrow> rat \<Rightarrow> rat \<Rightarrow> Syllable \<Rightarrow> Syllable \<times> (py_error + rat)" where
  "syl_step_h self st mt space_width cur_x syl =
     (let s0 = syl\<lparr>style := Some st, meta := Some mt\<rparr> in
      need (prespace s0) s0 (\<lambda>pre.
        (let x1 = cur_x + of_nat pre * (space_width + spacing st);
             s1 = set_x st (set_horizontal x1 s0)
         in need (postspace s1) s1 (\<lambda>post.
              copy_vertical self s1
                (x1 + width s1 + of_nat post * (space_width + spacing st) + spacing st)))))"

definition syl_step_v :: "Line \<Rightarrow> Style \<Rightarrow> Meta \<Rightarrow> rat \<Rightarrow> rat \<Rightarrow> Syllable \<Rightarrow> Syllable \<times> (py_error + rat)" where
  "syl_step_v self st mt max_width cur_y syl =
     (let s0 = syl\<lparr>style := Some st, meta := Some mt\<rparr>;
          x_fix = (max_width - width s0) / 2;
          placed =
            (if alignment st = 4 then
               need (left self) s0 (\<lambda>lf.
                 ((set_horizontal (lf + x_fix) s0)\<lparr>x_pos := Some (lf + x_fix)\<rparr>, Inr ()))
             else if alignment st = 5 then
               need (center self) s0 (\<lambda>ce.
                 (let lf = ce - width s0 / 2
                  in ((set_horizontal lf s0)\<lparr>x_pos := Some (lf + width s0 / 2)\<rparr>, Inr ())))
             else
               need (right self) s0 (\<lambda>rt.
                 (let lf = rt - width s0 - x_fix
                  in ((set_horizontal lf s0)\<lparr>x_pos := Some (lf + width s0)\<rparr>, Inr ()))))
      in case placed of
           (s1, Inl e) \<Rightarrow> (s1, Inl e)
         | (s1, Inr _) \<Rightarrow> (set_stacked cur_y s1, Inr (cur_y + height s1)))"

definition karaoke_text :: "string \<Rightarrow> string" where
  "karaoke_text raw =
     py_replace ''{}'' []
       (py_replace [BSLASH, CHR ''k''] (''}{'' @ [BSLASH, CHR ''k''])
          (py_replace ''}{'' [] raw))"

definition add_syls :: "Font \<Rightarrow> bool \<Rightarrow> Line \<Rightarrow> Line \<times> py_error option" where
  "add_syls font vertical_kanji self =
     (let ks = syldata_finditer (karaoke_text (raw_text self));
          ss = syl_loop font 0 0 0 ks
      in case (style self, meta self) of
           (Some st, Some mt) \<Rightarrow>
             (let space_width = fst (text_extents font '' '') in
              if an_is_top st \<or> an_is_bottom st \<or> \<not> vertical_kanji then
                (case left self of
                   None \<Rightarrow> (self\<lparr>syls := Some ss\<rparr>, Some AttributeError)
                 | Some cur_x \<Rightarrow>
                     (case for_units (syl_step_h self st mt space_width) cur_x ss of
                        (ss', r) \<Rightarrow> (self\<lparr>syls := Some ss'\<rparr>, r)))
              else
                (case max_width_of ss of
                   Inl e \<Rightarrow> (self\<lparr>syls := Some ss\<rparr>, Some e)
                 | Inr max_width \<Rightarrow>
                     (case play_res_y_of mt of
                        None \<Rightarrow> (self\<lparr>syls := Some ss\<rparr>, Some AttributeError)
                      | Some pry \<Rightarrow>
                          (case for_units (syl_step_v self st mt max_width)
                                  (of_int pry / 2 - sum_height_of ss / 2) ss of
                             (ss', r) \<Rightarrow> (self\<lparr>syls := Some ss'\<rparr>, r)))))
         | _ \<Rightarrow> (self\<lparr>syls := Some ss\<rparr>, None))"


subsection \<open>Line.add_chars\<close>

definition new_Char :: Char where
  "new_Char =
     WordElement.extend
       (Word.extend new_Word (WordElement.fields 0 None))
       (Char.fields None None)"

text \<open>\<open>zip_offset(s, s, s, offsets=(-1, 0, 1), longest=True, fillvalue='')\<close>: every
  character with the one before and the one after it (\<open>None\<close> for the fill value).
  The last tuple of the zip has an empty middle and is skipped by the loop.\<close>

fun char_triples :: "char option \<Rightarrow> string \<Rightarrow> (char option \<times> char \<times> char option) list" where
  "char_triples prev [] = []"
| "char_triples prev (c # cs) =
     (prev, c, (case cs of [] \<Rightarrow> None | d # _ \<Rightarrow> Some d)) # char_triples (Some c) cs"

definition space_flag :: "char option \<Rightarrow> nat" where
  "space_flag c = (case c of None \<Rightarrow> 0 | Some d \<Rightarrow> if py_isspace d then 1 else 0)"

text \<open>
  The chars of one element (a syllable or a word) at position \<open>k\<close> of the
  enumeration. \<open>char_index\<close> is the loop variable of the enumeration, so it starts
  again at \<open>k\<close> for every element. \<open>ids\<close> gives \<open>word_i\<close>, \<open>syl_i\<close> and whether
  \<open>syl_char_i\<close> is set.
\<close>

definition make_char ::
  "Font \<Rightarrow> Meta \<Rightarrow> Style \<Rightarrow> nat \<times> nat option \<Rightarrow> rat \<Rightarrow> rat \<Rightarrow> rat \<Rightarrow> nat \<Rightarrow>
   nat \<times> (char option \<times> char \<times> char option) \<Rightarrow> Char" where
  "make_char font mt st ids t0 t1 dur k m =
     (case m of (ci, prev, c, nxt) \<Rightarrow>
        (let (w, h) = text_extents font [c];
             (asc, desc, il, el) = metrics font
         in new_Char\<lparr>i_idx := k + ci, word_i := fst ids, syl_i := snd ids,
               syl_char_i := (if snd ids = None then None else Some ci),
               start_time := t0, end_time := t1, duration := Some dur,
               meta := Some mt, style := Some st, text_str := [c],
               prespace := Some (space_flag prev), postspace := Some (space_flag nxt),
               width := w, height := h, ascent := asc, descent := desc,
               internal_leading := il, external_leading := el\<rparr>))"

definition chars_of_el ::
  "Font \<Rightarrow> Line \<Rightarrow> ('a Word_scheme \<Rightarrow> nat \<times> nat option) \<Rightarrow> nat \<times> 'a Word_scheme \<Rightarrow> py_error + Char list" where
  "chars_of_el font self ids kel =
     (case kel of (k, el) \<Rightarrow>
        (case (prespace el, postspace el) of
           (Some pre, Some post) \<Rightarrow>
             (let el_text = replicate pre (CHR '' '') @ text_str el @ replicate post (CHR '' '')
              in if el_text = [] then Inr []
                 else (case (duration el, meta self, style self) of
                         (Some dur, Some mt, Some st) \<Rightarrow>
                           Inr (map (make_char font mt st (ids el) (start_time el) (end_time el) dur k)
                                    (enumerate 0 (char_triples None el_text)))
                       | _ \<Rightarrow> Inl AttributeError))
         | _ \<Rightarrow> Inl AttributeError))"

text \<open>The outer loop: chars are appended element by element until an element
  raises.\<close>

fun chars_loop ::
  "Font \<Rightarrow> Line \<Rightarrow> ('a Word_scheme \<Rightarrow> nat \<times> nat option) \<Rightarrow> (nat \<times> 'a Word_scheme) list \<Rightarrow> Char list \<times> py_error option" where
  "chars_loop font self ids [] = ([], None)"
| "chars_loop font self ids (kel # rest) =
     (case chars_of_el font self ids kel of
        Inl e \<Rightarrow> ([], Some e)
      | Inr cs \<Rightarrow> (case chars_loop font self ids rest of (cs', r) \<Rightarrow> (cs @ cs', r)))"

text \<open>
  The body of the horizontal loop. The first \<open>if\<close> has no \<open>else\<close> and the second
  \<open>if\<close> is not an \<open>elif\<close>: after \<open>x = left\<close> for a left alignment, the \<open>else\<close> branch
  of the test for center runs as well.
\<close>

definition char_step_h :: "Line \<Rightarrow> Style \<Rightarrow> rat \<Rightarrow> Char \<Rightarrow> Char \<times> (py_error + rat)" where
  "char_step_h self st cur_x char =
     (let c1 = set_horizontal cur_x char;
          c2 = (if an_is_left st then c1\<lparr>x_pos := left c1\<rparr> else c1);
          c3 = (if an_is_center st then c2\<lparr>x_pos := center c2\<rparr> else c2\<lparr>x_pos := right c2\<rparr>)
      in copy_vertical self c3 (cur_x + width c3 + spacing st))"

definition char_step_v :: "Line \<Rightarrow> Style \<Rightarrow> Meta \<Rightarrow> rat \<Rightarrow> rat \<Rightarrow> Char \<Rightarrow> Char \<times> (py_error + rat)" where
  "char_step_v self st mt max_width cur_y char =
     (let x_fix = (max_width - width char) / 2;
          placed =
            (if alignment st = 4 then
               need (left self) char (\<lambda>lf.
                 ((set_horizontal (lf + x_fix) char)\<lparr>x_pos := Some (lf + x_fix)\<rparr>, Inr ()))
             else if alignment st = 5 then
               need (play_res_x_of mt) char (\<lambda>prx.
                 (let lf = of_int prx / 2 - width char / 2
                  in ((set_horizontal lf char)\<lparr>x_pos := Some (lf + width char / 2)\<rparr>, Inr ())))
             else
               need (right self) char (\<lambda>rt.
                 (let lf = rt - width char - x_fix
                  in ((set_horizontal lf char)\<lparr>x_pos := Some (lf + width char)\<rparr>, Inr ()))))
      in case placed of
           (c1, Inl e) \<Rightarrow> (c1, Inl e)
         | (c1, Inr _) \<Rightarrow> (set_stacked cur_y c1, Inr (cur_y + height c1)))"

text \<open>"Fixing line positions": the bounds of the stacked block written back to the
  line, before the chars are placed.\<close>

definition fix_line :: "Style \<Rightarrow> int \<Rightarrow> rat \<Rightarrow> rat \<Rightarrow> Line \<Rightarrow> Line \<times> py_error option" where
  "fix_line st pry max_width sum_height self =
     (let cur_y = of_int pry / 2 - sum_height / 2;
          l1 = self\<lparr>top_pos := Some cur_y, middle := Some (of_int pry / 2),
                    bottom := Some (cur_y + sum_height), width := max_width,
                    height := sum_height\<rparr>
      in if alignment st = 4 then
           (case left l1 of
              None \<Rightarrow> (l1, Some AttributeError)
            | Some lf \<Rightarrow> (l1\<lparr>center := Some (lf + max_width / 2), right := Some (lf + max_width)\<rparr>, None))
         else if alignment st = 5 then
           (case center l1 of
              None \<Rightarrow> (l1, Some AttributeError)
            | Some ce \<Rightarrow> (l1\<lparr>left := Some (ce - max_width / 2),
                              right := Some (ce - max_width / 2 + max_width)\<rparr>, None))
         else
           (case right l1 of
              None \<Rightarrow> (l1, Some AttributeError)
            | Some rt \<Rightarrow> (l1\<lparr>left := Some (rt - max_width),
                              center := Some (rt - max_width + max_width / 2)\<rparr>, None)))"

text \<open>The layout half of \<open>add_chars\<close>, on the chars already collected.\<close>

definition chars_layout :: "bool \<Rightarrow> Line \<Rightarrow> Char list \<Rightarrow> Line \<times> py_error option" where
  "chars_layout vertical_kanji self cs =
     (case (meta self, style self) of
        (Some mt, Some st) \<Rightarrow>
          (if an_is_top st \<or> an_is_bottom st \<or> \<not> vertical_kanji then
             (case left self of
                None \<Rightarrow> (self\<lparr>chars := Some cs\<rparr>, Some AttributeError)
              | Some cur_x \<Rightarrow>
                  (case for_units (char_step_h self st) cur_x cs of
                     (cs', r) \<Rightarrow> (self\<lparr>chars := Some cs'\<rparr>, r)))
           else
             (case max_width_of cs of
                Inl e \<Rightarrow> (self\<lparr>chars := Some cs\<rparr>, Some e)
              | Inr max_width \<Rightarrow>
                  (case play_res_y_of mt of
                     None \<Rightarrow> (self\<lparr>chars := Some cs\<rparr>, Some AttributeError)
                   | Some pry \<Rightarrow>
                       (case fix_line st pry max_width (sum_height_of cs) self of
                          (l1, Some e) \<Rightarrow> (l1\<lparr>chars := Some cs\<rparr>, Some e)
                        | (l1, None) \<Rightarrow>
                            (case for_units (char_step_v l1 st mt max_width)
                                    (of_int pry / 2 - sum_height_of cs / 2) cs of
                               (cs', r) \<Rightarrow> (l1\<lparr>chars := Some cs'\<rparr>, r))))))
      | _ \<Rightarrow> (self\<lparr>chars := Some cs\<rparr>, None))"

text \<open>
  \<open>add_chars\<close>. The chars come from the syllables when there are any, else from
  the words; with neither the pass returns at once. Reading \<open>self.syls\<close> or
  \<open>self.words\<close> before the pass that sets it raises.
\<close>

definition add_chars :: "Font \<Rightarrow> bool \<Rightarrow> Line \<Rightarrow> Line \<times> py_error option" where
  "add_chars font vertical_kanji self =
     (let l0 = self\<lparr>chars := Some []\<rparr> in
      case syls l0 of
        None \<Rightarrow> (l0, Some AttributeError)
      | Some (sy # sys) \<Rightarrow>
          (case chars_loop font l0 (\<lambda>el. (word_i el, Some (i_idx el))) (enumerate 0 (sy # sys)) of
             (cs, Some e) \<Rightarrow> (l0\<lparr>chars := Some cs\<rparr>, Some e)
           | (cs, None) \<Rightarrow> chars_layout vertical_kanji l0 cs)
      | Some [] \<Rightarrow>
          (case words l0 of
             None \<Rightarrow> (l0, Some AttributeError)
           | Some [] \<Rightarrow> (l0, None)
           | Some ws \<Rightarrow>
               (case chars_loop font l0 (\<lambda>el. (i_idx el, None)) (enumerate 0 ws) of
                  (cs, Some e) \<Rightarrow> (l0\<lparr>chars := Some cs\<rparr>, Some e)
                | (cs, None) \<Rightarrow> chars_layout vertical_kanji l0 cs)))"


section \<open>Projections and sample inputs\<close>

text \<open>What the layout loops leave alone in a unit.\<close>

definition timing :: "'a AssText_scheme \<Rightarrow> nat \<times> rat \<times> rat \<times> rat option \<times> string \<times> rat \<times> rat" where
  "timing u = (i_idx u, start_time u, end_time u, duration u, text_str u, width u, height u)"


text \<open>A font in which every character is 10 wide and 20 high.\<close>

definition mono_font :: Font where
  "mono_font = \<lparr>text_extents = (\<lambda>s. (of_nat (length s) * 10, 20)), metrics = (15, 5, 2, 1)\<rparr>"

text \<open>A \<open>Meta\<close> with play resolution 1920x1080 at 24000/1001 fps.\<close>

definition hd_meta :: Meta where
  "hd_meta =
     \<lparr>script_info = Some \<lparr>play_res_x = Some 1920, play_res_y = Some 1080,
                          scaled_border_and_shadow = Some True\<rparr>,
      fps = 24000 / 1001\<rparr>"

text \<open>A line from 0 s to 5 s with the given meta, style and raw text, zero line
  margins, and no pass run on it.\<close>

definition sample_line :: "Meta \<Rightarrow> Style \<Rightarrow> string \<Rightarrow> Line" where
  "sample_line mt st raw =
     AssText.extend
       (new_AssText\<lparr>start_time := 0, end_time := 5, duration := Some 5, text_str := raw,
          style := Some st, meta := Some mt\<rparr>)
       (Line.fields False 0 None None [] 0 0 0 [] raw None None None)"

text \<open>The dialogue line of the end-to-end scenario: two syllables of 50
  centiseconds in a line from 1 s to 3 s.\<close>

definition scenario_line :: string where
  "scenario_line =
     ''Dialogue: 0,0:00:01.00,0:00:03.00,Default,,0,0,0,,{'' @ [BSLASH] @ ''k50}Hel{''
     @ [BSLASH] @ ''k50}lo''"

text \<open>A \<open>Time.from_assts\<close> that is never reached when \<open>fix_timestamps\<close> is false.\<close>

definition no_assts :: "string \<Rightarrow> rat \<Rightarrow> bool \<Rightarrow> py_error + rat" where
  "no_assts ts fps_arg is_start = Inl ValueError"



text \<open>A char whose \<open>x\<close> is its right edge.\<close>

definition x_at_right :: "Char \<Rightarrow> bool" where
  "x_at_right c = (\<exists>lf. left c = Some lf \<and> right c = Some (lf + width c) \<and> x_pos c = right c
                      \<and> (width c \<noteq> 0 \<longrightarrow> x_pos c \<noteq> left c))"

text \<open>A top-left aligned line of two syllables, with \<open>add_data\<close> and \<open>add_syls\<close>
  run on it.\<close>

definition left_sample :: Line where
  "left_sample =
     fst (add_syls mono_font False
            (add_data mono_font
               (sample_line hd_meta (default_style\<lparr>alignment := 7\<rparr>)
                  (''{'' @ [BSLASH] @ ''k50}Hel{'' @ [BSLASH] @ ''k50}lo''))))"





text \<open>The karaoke text of the scenario line.\<close>

definition scenario_raw :: string where
  "scenario_raw = ''{'' @ [BSLASH] @ ''k50}Hel{'' @ [BSLASH] @ ''k50}lo''"


section \<open>core.py: Ass.__init__, the extended decomposition\<close>

text \<open>The four passes that \<open>__init__\<close> runs on a line; an exception in one of them
  leaves \<open>__init__\<close>.\<close>

definition decompose :: "Font \<Rightarrow> bool \<Rightarrow> Line \<Rightarrow> py_error + Line" where
  "decompose font vertical_kanji line =
     (case add_words font (add_data font line) of
        (l2, Some e) \<Rightarrow> Inl e
      | (l2, None) \<Rightarrow>
          (case add_syls font vertical_kanji l2 of
             (l3, Some e) \<Rightarrow> Inl e
           | (l3, None) \<Rightarrow>
               (case add_chars font vertical_kanji l3 of
                  (l4, Some e) \<Rightarrow> Inl e
                | (l4, None) \<Rightarrow> Inr l4)))"

text \<open>
  \<open>lines_by_styles\<close>: a dict from style names to lists of lines, in insertion
  order. A line is referred to by its position in \<open>self._lines\<close>.
  \<open>lines_by_styles[name].append(line)\<close>:
\<close>

fun group_append :: "string \<Rightarrow> nat \<Rightarrow> (string \<times> nat list) list \<Rightarrow> (string \<times> nat list) list" where
  "group_append s k [] = [(s, [k])]"
| "group_append s k ((s', js) # g) =
     (if s' = s then (s', js @ [k]) # g else (s', js) # group_append s k g)"

text \<open>The first loop, over the positions \<open>ks\<close> of the lines: a line without style
  is skipped, any other is filed under the name of its style and decomposed with
  the font of its style (\<open>get_font\<close>, external).\<close>

fun extend_lines ::
  "(Style \<Rightarrow> Font) \<Rightarrow> bool \<Rightarrow> nat list \<Rightarrow> Line list \<Rightarrow> (string \<times> nat list) list
   \<Rightarrow> py_error + (Line list \<times> (string \<times> nat list) list)" where
  "extend_lines get_font vertical_kanji [] ls g = Inr (ls, g)"
| "extend_lines get_font vertical_kanji (k # ks) ls g =
     (case style (ls ! k) of
        None \<Rightarrow> extend_lines get_font vertical_kanji ks ls g
      | Some st \<Rightarrow>
          (case decompose (get_font st) vertical_kanji (ls ! k) of
             Inl e \<Rightarrow> Inl e
           | Inr l' \<Rightarrow>
               extend_lines get_font vertical_kanji ks (ls[k := l']) (group_append (name st) k g)))"

text \<open>\<open>default_lead = 1 / float(fps) * round(fps)\<close>.\<close>

definition default_lead :: "rat \<Rightarrow> py_error + rat" where
  "default_lead fps_v = ebind (py_truediv 1 fps_v) (\<lambda>q. Inr (q * of_int (py_round fps_v)))"

text \<open>
  \<open>zip_offset(xs, xs, xs, offsets=(-1, 0, 1), longest=True)\<close>: every element with
  its predecessor and its successor, \<open>None\<close> where there is none, and a last tuple
  that holds the last element as predecessor of nothing.
\<close>

fun zip_offset3 :: "'a option \<Rightarrow> 'a list \<Rightarrow> ('a option \<times> 'a option \<times> 'a option) list" where
  "zip_offset3 prev [] = [(prev, None, None)]"
| "zip_offset3 prev (c # cs) =
     (prev, Some c, (case cs of [] \<Rightarrow> None | d # _ \<Rightarrow> Some d)) # zip_offset3 (Some c) cs"

text \<open>The body of the second loop. A line object is always true, so \<open>not preline\<close>
  holds for \<open>None\<close> only.\<close>

definition lead_step :: "rat \<Rightarrow> nat option \<times> nat option \<times> nat option \<Rightarrow> Line list \<Rightarrow> Line list" where
  "lead_step dl z ls =
     (case z of
        (preline, None, postline) \<Rightarrow> ls
      | (preline, Some c, postline) \<Rightarrow>
          ls[c := (ls ! c)
               \<lparr>leadin := Some (case preline of
                                  None \<Rightarrow> dl
                                | Some p \<Rightarrow> Time_sub (start_time (ls ! c)) (end_time (ls ! p))),
                leadout := Some (case postline of
                                   None \<Rightarrow> dl
                                 | Some n \<Rightarrow> Time_sub (start_time (ls ! n)) (end_time (ls ! c)))\<rparr>])"

definition all_zlines :: "(string \<times> nat list) list \<Rightarrow> (nat option \<times> nat option \<times> nat option) list" where
  "all_zlines g = concat (map (\<lambda>(s, liness). zip_offset3 None liness) g)"

text \<open>\<open>__init__\<close> from \<open>if not extended: return\<close> on, for the lines already
  parsed.\<close>

definition Ass_init_extended ::
  "(Style \<Rightarrow> Font) \<Rightarrow> bool \<Rightarrow> rat \<Rightarrow> Line list \<Rightarrow> py_error + Line list" where
  "Ass_init_extended get_font vertical_kanji fps_v ls =
     ebind (extend_lines get_font vertical_kanji [0..<length ls] ls []) (\<lambda>(ls1, g).
     ebind (default_lead fps_v) (\<lambda>dl.
       Inr (fold (lead_step dl) (all_zlines g) ls1)))"

text \<open>
  The neighbours of the claim: the nearest earlier and the nearest later line
  with a style of the same name as the style of line \<open>k\<close>.
\<close>

definition same_style :: "Line list \<Rightarrow> nat \<Rightarrow> nat \<Rightarrow> bool" where
  "same_style ls k j =
     (style (ls ! j) \<noteq> None \<and> map_option name (style (ls ! j)) = map_option name (style (ls ! k)))"

definition prev_same_style :: "Line list \<Rightarrow> nat \<Rightarrow> nat option" where
  "prev_same_style ls k =
     (case filter (same_style ls k) [0..<k] of [] \<Rightarrow> None | js \<Rightarrow> Some (last js))"

definition next_same_style :: "Line list \<Rightarrow> nat \<Rightarrow> nat option" where
  "next_same_style ls k =
     (case filter (same_style ls k) [Suc k..<length ls] of [] \<Rightarrow> None | j # _ \<Rightarrow> Some j)"


text \<open>What the four passes leave alone in a line.\<close>

definition frame :: "Line \<Rightarrow> rat \<times> rat \<times> Style option \<times> rat option \<times> rat option" where
  "frame l = (start_time l, end_time l, style l, leadin l, leadout l)"

text \<open>The style name of line \<open>k\<close>, the key under which the first loop files it.\<close>

definition sname :: "Line list \<Rightarrow> nat \<Rightarrow> string option" where
  "sname ls k = map_option name (style (ls ! k))"

definition gstep :: "Line list \<Rightarrow> nat \<Rightarrow> (string \<times> nat list) list \<Rightarrow> (string \<times> nat list) list" where
  "gstep ls k g = (case sname ls k of None \<Rightarrow> g | Some s \<Rightarrow> group_append s k g)"

text \<open>The last element of a list, or a default for the empty list; the first
  element, if any.\<close>

definition lastopt :: "'a option \<Rightarrow> 'a list \<Rightarrow> 'a option" where
  "lastopt q xs = (if xs = [] then q else Some (last xs))"

definition hdopt :: "'a list \<Rightarrow> 'a option" where
  "hdopt xs = (case xs of [] \<Rightarrow> None | x # _ \<Rightarrow> Some x)"

text \<open>Three lines, the first and the third in style Default, the second in
  style Alt.\<close>

definition three_lines :: "Line list" where
  "three_lines =
     [(sample_line hd_meta default_style scenario_raw)\<lparr>start_time := 1, end_time := 3\<rparr>,
      (sample_line hd_meta (default_style\<lparr>name := ''Alt''\<rparr>) ''x y'')\<lparr>start_time := 2, end_time := 4\<rparr>,
      (sample_line hd_meta default_style ''abc'')\<lparr>start_time := 5, end_time := 6\<rparr>]"


text \<open>The state of \<open>lines_by_styles\<close> after the first \<open>m\<close> lines: one entry per
  style name met so far, holding the positions of the lines of that name in
  order.\<close>

definition ginv :: "Line list \<Rightarrow> (string \<times> nat list) list \<Rightarrow> nat \<Rightarrow> bool" where
  "ginv ls g m = (distinct (map fst g)
     \<and> (\<forall>(s, js) \<in> set g. js = filter (\<lambda>j. sname ls j = Some s) [0..<m] \<and> js \<noteq> [])
     \<and> (\<forall>j < m. \<forall>s. sname ls j = Some s \<longrightarrow> s \<in> fst ` set g))"

text \<open>The values that the second loop assigns to \<open>leadin\<close> and \<open>leadout\<close>.\<close>

definition lead_in_val :: "rat \<Rightarrow> Line list \<Rightarrow> nat \<Rightarrow> nat option \<Rightarrow> rat" where
  "lead_in_val dl ls k p = (case p of None \<Rightarrow> dl | Some j \<Rightarrow> Time_sub (start_time (ls ! k)) (end_time (ls ! j)))"

definition lead_out_val :: "rat \<Rightarrow> Line list \<Rightarrow> nat \<Rightarrow> nat option \<Rightarrow> rat" where
  "lead_out_val dl ls k n = (case n of None \<Rightarrow> dl | Some j \<Rightarrow> Time_sub (start_time (ls ! j)) (end_time (ls ! k)))"


section \<open>core.py: _MetaData, ScriptInfo, ProjectGarbage\<close>

subsection \<open>Strings\<close>

definition is_upper :: "char \<Rightarrow> bool" where
  "is_upper c = (65 \<le> (of_char c :: nat) \<and> (of_char c :: nat) \<le> 90)"

definition is_lower :: "char \<Rightarrow> bool" where
  "is_lower c = (97 \<le> (of_char c :: nat) \<and> (of_char c :: nat) \<le> 122)"

definition to_upper :: "char \<Rightarrow> char" where
  "to_upper c = char_of ((of_char c :: nat) - 32)"

definition to_lower :: "char \<Rightarrow> char" where
  "to_lower c = char_of ((of_char c :: nat) + 32)"

text \<open>\<open>str.lower()\<close> for code points below 256: the ASCII capitals and the
  capitals of Latin-1 (192 to 222 without the multiplication sign 215).\<close>

definition py_lower :: "string \<Rightarrow> string" where
  "py_lower s =
     map (\<lambda>c. if is_upper c \<or> (192 \<le> (of_char c :: nat) \<and> (of_char c :: nat) \<le> 222
                                 \<and> (of_char c :: nat) \<noteq> 215)
              then to_lower c else c) s"

text \<open>\<open>str.title()\<close> on ASCII text, which is all that \<open>as_text\<close> applies it to: a
  letter that follows a letter is made small, any other letter is made a
  capital.\<close>

fun title_from :: "bool \<Rightarrow> string \<Rightarrow> string" where
  "title_from prev [] = []"
| "title_from prev (c # cs) =
     (if is_lower c then (if prev then c else to_upper c) # title_from True cs
      else if is_upper c then (if prev then to_lower c else c) # title_from True cs
      else c # title_from False cs)"

definition py_title :: "string \<Rightarrow> string" where
  "py_title s = title_from False s"

text \<open>\<open>str(n)\<close> of an int.\<close>

fun str_nat :: "nat \<Rightarrow> string" where
  "str_nat n = (if n < 10 then [char_of (48 + n)] else str_nat (n div 10) @ [char_of (48 + n mod 10)])"

declare str_nat.simps [simp del]

definition py_str_int :: "int \<Rightarrow> string" where
  "py_str_int i = (if i < 0 then CHR ''-'' # str_nat (nat (- i)) else str_nat (nat i))"

subsection \<open>Values and classes\<close>

text \<open>
  The annotations name four value types. \<open>float\<close> is Python's own and \<open>AssBool\<close>
  lives in \<open>ptypes\<close>, which is not among the sources: their values are the type
  parameters \<open>'f\<close> and \<open>'b\<close>, and their constructors from a string and their
  renderings (\<open>str\<close> of a float, \<open>repr\<close> of a \<open>CustomBool\<close>) are parameters.
\<close>

datatype vtype = TStr | TInt | TFloat | TAssBool

datatype ('f, 'b) pyval = VStr string | VInt int | VFloat 'f | VBool 'b

record ('f, 'b) codecs =
  float_of :: "string \<Rightarrow> py_error + 'f"
  float_str :: "'f \<Rightarrow> string"
  AssBool_of :: "string \<Rightarrow> py_error + 'b"
  AssBool_repr :: "'b \<Rightarrow> string"

text \<open>\<open>eval(cls.__annotations__[k])(v)\<close>.\<close>

fun coerce :: "('f, 'b) codecs \<Rightarrow> vtype \<Rightarrow> string \<Rightarrow> py_error + ('f, 'b) pyval" where
  "coerce cd TStr v = Inr (VStr v)"
| "coerce cd TInt v = ebind (py_int v) (\<lambda>n. Inr (VInt n))"
| "coerce cd TFloat v = ebind (float_of cd v) (\<lambda>x. Inr (VFloat x))"
| "coerce cd TAssBool v = ebind (AssBool_of cd v) (\<lambda>x. Inr (VBool x))"

text \<open>What \<open>as_text\<close> writes for a value: \<open>repr(v)\<close> for a \<open>CustomBool\<close>, then the
  f-string \<open>{v}\<close>.\<close>

fun render :: "('f, 'b) codecs \<Rightarrow> ('f, 'b) pyval \<Rightarrow> string" where
  "render cd (VStr s) = s"
| "render cd (VInt n) = py_str_int n"
| "render cd (VFloat x) = float_str cd x"
| "render cd (VBool x) = AssBool_repr cd x"

text \<open>
  Modelled from the spec: \<open>AutoSlots\<close> (module \<open>ptypes\<close>), which computes
  \<open>__slots__\<close>, \<open>__slots_ex__\<close> and \<open>__all_slots__\<close> of a class, is not among the
  sources. From the spec: the fields of a record are its annotations in
  declaration order; a field whose name starts with an underscore is exposed
  under the name without it through a property; encoding goes through the fields
  in declaration order. So \<open>annotations\<close> is the class body as written,
  \<open>__slots__\<close> its names, \<open>slots_ex\<close> the names of the properties that stand for
  an underscore field, and \<open>all_slots\<close> the declaration order with each such
  property right after its field.
\<close>

record meta_class =
  annotations :: "(string \<times> vtype) list"
  slots_ex :: "string list"
  all_slots :: "string list"

definition slots :: "meta_class \<Rightarrow> string list" where
  "slots cls = map fst (annotations cls)"

definition ScriptInfo_cls :: meta_class where
  "ScriptInfo_cls =
     \<lparr>annotations =
        [(''title'', TStr), (''script_type'', TStr), (''wrap_style'', TInt),
         (''_scaled_border_and_shadow'', TAssBool), (''y_cb_cr__matrix'', TStr),
         (''play_res_x'', TInt), (''play_res_y'', TInt), (''original__script'', TStr),
         (''original__translation'', TStr), (''original__editing'', TStr),
         (''original__timing'', TStr), (''synch__point'', TStr),
         (''script__updated__by'', TStr), (''update__details'', TStr)],
      slots_ex = [''scaled_border_and_shadow''],
      all_slots =
        [''title'', ''script_type'', ''wrap_style'', ''_scaled_border_and_shadow'',
         ''scaled_border_and_shadow'', ''y_cb_cr__matrix'', ''play_res_x'', ''play_res_y'',
         ''original__script'', ''original__translation'', ''original__editing'',
         ''original__timing'', ''synch__point'', ''script__updated__by'',
         ''update__details'']\<rparr>"

definition ProjectGarbage_cls :: meta_class where
  "ProjectGarbage_cls =
     \<lparr>annotations =
        [(''automation__scripts'', TStr), (''export__encoding'', TStr),
         (''last__style__storage'', TStr), (''audio__file'', TStr), (''video__file'', TStr),
         (''video__a_r__mode'', TInt), (''video__a_r__value'', TFloat),
         (''video__zoom__percent'', TFloat), (''video__position'', TInt),
         (''active__line'', TInt), (''keyframes__file'', TStr)],
      slots_ex = [],
      all_slots =
        [''automation__scripts'', ''export__encoding'', ''last__style__storage'',
         ''audio__file'', ''video__file'', ''video__a_r__mode'', ''video__a_r__value'',
         ''video__zoom__percent'', ''video__position'', ''active__line'',
         ''keyframes__file'']\<rparr>"

text \<open>
  An instance is the map of the attributes assigned so far. A property reads and
  writes the field of its name with an underscore in front.
\<close>

type_synonym ('f, 'b) md_instance = "string \<Rightarrow> ('f, 'b) pyval option"

definition storage :: "meta_class \<Rightarrow> string \<Rightarrow> string" where
  "storage cls k = (if k \<in> set (slots cls) then k else CHR ''_'' # k)"

definition getattr :: "meta_class \<Rightarrow> ('f, 'b) md_instance \<Rightarrow> string \<Rightarrow> ('f, 'b) pyval option" where
  "getattr cls self k = self (storage cls k)"

subsection \<open>_MetaData.from_text\<close>

text \<open>
  \<open>^(?P<name>.*): (?P<value>.*)$\<close> with \<open>re.MULTILINE\<close>: at most one match in a
  line (lines end at newlines only). The name is greedy, so the line is cut at
  its last colon followed by a blank.
\<close>

fun meta_match :: "string \<Rightarrow> (string \<times> string) option" where
  "meta_match [] = None"
| "meta_match (c # cs) =
     (case meta_match cs of
        Some (n, v) \<Rightarrow> Some (c # n, v)
      | None \<Rightarrow> if c = CHR '':'' \<and> take 1 cs = '' '' then Some ([], tl cs) else None)"

definition meta_finditer :: "string \<Rightarrow> (string \<times> string) list" where
  "meta_finditer text = List.map_filter meta_match (py_split NEWLINE text)"

text \<open>\<open>pattern.sub('_', k.replace(' ', '_')).lower()\<close>, the pattern
  \<open>(?<!^)(?=[A-Z])\<close> being the empty string before a capital that is not the
  first character.\<close>

definition camel_sub :: "string \<Rightarrow> string" where
  "camel_sub s =
     (case s of
        [] \<Rightarrow> []
      | c # cs \<Rightarrow> c # concat (map (\<lambda>d. if is_upper d then [CHR ''_'', d] else [d]) cs))"

definition key_transform :: "string \<Rightarrow> string" where
  "key_transform k = py_lower (camel_sub (map (\<lambda>c. if c = CHR '' '' then CHR ''_'' else c) k))"

definition annotation :: "meta_class \<Rightarrow> string \<Rightarrow> py_error + vtype" where
  "annotation cls k = (case map_of (annotations cls) k of None \<Rightarrow> Inl KeyError | Some t \<Rightarrow> Inr t)"

fun from_text_loop ::
  "('f, 'b) codecs \<Rightarrow> meta_class \<Rightarrow> (string \<times> string) list \<Rightarrow> ('f, 'b) md_instance
   \<Rightarrow> py_error + ('f, 'b) md_instance" where
  "from_text_loop cd cls [] self = Inr self"
| "from_text_loop cd cls ((k0, v) # ms) self =
     (let k = key_transform k0 in
      if k \<in> set (slots cls) then
        ebind (annotation cls k) (\<lambda>t.
        ebind (coerce cd t v) (\<lambda>x.
          from_text_loop cd cls ms (self(k \<mapsto> x))))
      else if k \<in> set (slots_ex cls) \<and> k \<notin> set (slots cls) then
        ebind (annotation cls (CHR ''_'' # k)) (\<lambda>t.
        ebind (coerce cd t v) (\<lambda>x.
          from_text_loop cd cls ms (self(storage cls k \<mapsto> x))))
      else from_text_loop cd cls ms self)"

definition MetaData_from_text ::
  "('f, 'b) codecs \<Rightarrow> meta_class \<Rightarrow> string \<Rightarrow> py_error + ('f, 'b) md_instance" where
  "MetaData_from_text cd cls text = from_text_loop cd cls (meta_finditer text) Map.empty"

subsection \<open>_MetaData.as_text\<close>

text \<open>The name of a field as \<open>as_text\<close> writes it: the pieces between underscores
  in title case, an empty piece as a blank.\<close>

definition wire_name :: "string \<Rightarrow> string" where
  "wire_name k = concat (map (\<lambda>w. py_title (if w = [] then '' '' else w)) (py_split (CHR ''_'') k))"

definition as_text_field :: "('f, 'b) codecs \<Rightarrow> meta_class \<Rightarrow> ('f, 'b) md_instance \<Rightarrow> string \<Rightarrow> string" where
  "as_text_field cd cls self k =
     (case getattr cls self k of
        None \<Rightarrow> []
      | Some v \<Rightarrow>
          if take 1 k = ''_'' then []
          else wire_name k @ '': '' @ render cd v @ [NEWLINE])"

text \<open>\<open>comment_arg\<close> is the list passed as \<open>comment\<close>, empty for \<open>None\<close>.\<close>

definition MetaData_as_text ::
  "('f, 'b) codecs \<Rightarrow> meta_class \<Rightarrow> ('f, 'b) md_instance \<Rightarrow> string list \<Rightarrow> string" where
  "MetaData_as_text cd cls self comment_arg =
     (if comment_arg \<noteq> [] then py_join ''; '' comment_arg @ [NEWLINE] else [])
     @ concat (map (as_text_field cd cls self) (all_slots cls))"

text \<open>Decoding a text block and encoding the record again, without comment.\<close>

definition meta_round_trip :: "('f, 'b) codecs \<Rightarrow> meta_class \<Rightarrow> string \<Rightarrow> py_error + string" where
  "meta_round_trip cd cls text =
     ebind (MetaData_from_text cd cls text) (\<lambda>self. Inr (MetaData_as_text cd cls self []))"

text \<open>
  Modelled from the spec: \<open>AssBool\<close> (module \<open>ptypes\<close>) is a yes/no flag with its
  own textual representation. Here it is built from \<open>yes\<close> or \<open>no\<close> and written
  the same way. The float codec of these sample codecs accepts nothing; they
  serve for text blocks without float fields.
\<close>

definition sample_codecs :: "(unit, bool) codecs" where
  "sample_codecs =
     \<lparr>float_of = (\<lambda>s. Inl ValueError),
      float_str = (\<lambda>u. []),
      AssBool_of = (\<lambda>s. if s = ''yes'' then Inr True else if s = ''no'' then Inr False
                          else Inl ValueError),
      AssBool_repr = (\<lambda>b. if b then ''yes'' else ''no'')\<rparr>"


subsection \<open>Canonical text blocks\<close>

text \<open>The names that \<open>as_text\<close> can write: those without a leading underscore.\<close>

definition public_slots :: "meta_class \<Rightarrow> string list" where
  "public_slots cls = filter (\<lambda>k. take 1 k \<noteq> ''_'') (all_slots cls)"

text \<open>A text block: one line \<open>Name: Value\<close> per item, the name in the form that
  \<open>as_text\<close> writes.\<close>

definition encode_items :: "(string \<times> string) list \<Rightarrow> string" where
  "encode_items items = concat (map (\<lambda>(k, v). wire_name k @ '': '' @ v @ [NEWLINE]) items)"

text \<open>
  A value in canonical form for the field \<open>k\<close>: it has no newline and no colon
  followed by a blank, the constructor of the field's type accepts it, and the
  value built is written back as the same text.
\<close>

definition canonical_value :: "('f, 'b) codecs \<Rightarrow> meta_class \<Rightarrow> string \<Rightarrow> string \<Rightarrow> bool" where
  "canonical_value cd cls k v =
     (NEWLINE \<notin> set v \<and> meta_match v = None
      \<and> (case annotation cls (storage cls k) of
            Inl e \<Rightarrow> False
          | Inr t \<Rightarrow> (case coerce cd t v of Inl e \<Rightarrow> False | Inr x \<Rightarrow> render cd x = v)))"

text \<open>The value that decoding stores for an item.\<close>

definition cval :: "('f, 'b) codecs \<Rightarrow> meta_class \<Rightarrow> string \<Rightarrow> string \<Rightarrow> ('f, 'b) pyval" where
  "cval cd cls k v = projr (coerce cd (projr (annotation cls (storage cls k))) v)"

text \<open>What the round trip needs of a class: the written name of every public
  field is free of newlines and transforms back to the field, which is a slot
  or a property.\<close>

definition wf_class :: "meta_class \<Rightarrow> bool" where
  "wf_class cls =
     (distinct (public_slots cls)
      \<and> list_all (\<lambda>k. key_transform (wire_name k) = k \<and> NEWLINE \<notin> set (wire_name k)
                       \<and> (k \<in> set (slots cls) \<or> k \<in> set (slots_ex cls)))
           (public_slots cls))"


text \<open>What decoding an item does to the instance: the field (for a property, the
  field behind it) is set to the value built from the text.\<close>

definition upd_item :: "('f, 'b) codecs \<Rightarrow> meta_class \<Rightarrow> string \<times> string \<Rightarrow> ('f, 'b) md_instance \<Rightarrow> ('f, 'b) md_instance" where
  "upd_item cd cls kv self = (case kv of (k, v) \<Rightarrow> self(storage cls k \<mapsto> cval cd cls k v))"

text \<open>A \<open>[Script Info]\<close> block in canonical form, as names of fields and texts of
  values.\<close>

definition sample_items :: "(string \<times> string) list" where
  "sample_items = [(''title'', ''x''), (''wrap_style'', ''0''),
     (''scaled_border_and_shadow'', ''yes''), (''y_cb_cr__matrix'', ''TV.709''), (''play_res_x'', ''1920'')]"


section \<open>Theorems\<close>

lemma check_for_ValueError:
  "check_for x y vs = Inl ValueError \<longleftrightarrow> (\<exists>v \<in> set vs. \<not> (x < v \<and> v < y))"
  by (induction vs) auto

text \<open>
  C10. \<open>ValueRangeIncInc.check\<close> raises \<open>ValueError\<close> exactly when one of the values it
  checks fails the strict comparison \<open>x < v < y\<close>. Both bounds are rejected: with the
  bounds \<open>(0, 9)\<close> of the \<open>Alignment\<close> annotation the values 9 and 0 raise
  \<open>ValueError\<close> as floats or as elements of an iterable, and as plain \<open>int\<close>s they raise
  too (\<open>TypeError\<close>, before any comparison).
\<close>

theorem ValueRangeIncInc_check_strict:
  "(ValueRangeIncInc_check x y val = Inl ValueError
      \<longleftrightarrow> (\<exists>v \<in> set (checked_values val). \<not> (x < v \<and> v < y)))
   \<and> ValueRangeIncInc_check 0 9 (PyFloat 9) = Inl ValueError
   \<and> ValueRangeIncInc_check 0 9 (PyFloat 0) = Inl ValueError
   \<and> ValueRangeIncInc_check 0 9 (PyIterable [9]) = Inl ValueError
   \<and> ValueRangeIncInc_check 0 9 (PyIterable [0]) = Inl ValueError
   \<and> isl (ValueRangeIncInc_check 0 9 (PyInt 9))
   \<and> isl (ValueRangeIncInc_check 0 9 (PyInt 0))"
  by (cases val) (simp_all add: check_for_ValueError)

theorem ValueRangeIncInc_check_strict_witness:
  "ValueRangeIncInc_check 0 9 (PyIterable [5, 9]) = Inl ValueError
   \<and> (\<exists>v \<in> set (checked_values (PyIterable [5, 9])). \<not> (0 < v \<and> v < 9))"
  using ValueRangeIncInc_check_strict [of 0 9 "PyIterable [5, 9]"] by simp


subsection \<open>PList.strip_empty\<close>

lemma keeps_ok: "duration u \<noteq> None \<Longrightarrow> \<exists>b. keeps u = Inr b"
  by (auto simp: keeps_def)

lemma strip_for_no_error:
  "\<forall>u \<in> set data. duration u \<noteq> None \<Longrightarrow> snd (strip_for pos data) = None"
proof (induction pos data rule: strip_for.induct)
  case (1 pos data)
  show ?case
  proof (cases "pos < length data")
    case False
    then show ?thesis by (simp add: strip_for.simps [of pos data])
  next
    case True
    then have "duration (data ! pos) \<noteq> None" using "1.prems" by simp
    then obtain b where b: "keeps (data ! pos) = Inr b" using keeps_ok by blast
    show ?thesis
    proof (cases b)
      case True
      with \<open>pos < length data\<close> b "1.IH"(1) "1.prems" show ?thesis
        by (simp add: strip_for.simps [of pos data])
    next
      case False
      have "\<forall>u \<in> set (remove1 (data ! pos) data). duration u \<noteq> None"
        using "1.prems" set_remove1_subset by fast
      with \<open>pos < length data\<close> b False "1.IH"(2) [of False] show ?thesis
        by (simp add: strip_for.simps [of pos data])
    qed
  qed
qed

lemma keeps_error: "keeps u = Inl e \<Longrightarrow> e = AttributeError \<and> duration u = None"
  by (auto simp: keeps_def split: if_splits option.splits)

lemma strip_for_error:
  "snd (strip_for pos data) = Some e \<Longrightarrow> e = AttributeError \<and> (\<exists>u \<in> set data. duration u = None)"
proof (induction pos data rule: strip_for.induct)
  case (1 pos data)
  show ?case
  proof (cases "pos < length data")
    case False
    with "1.prems" show ?thesis by (simp add: strip_for.simps [of pos data])
  next
    case True
    show ?thesis
    proof (cases "keeps (data ! pos)")
      case (Inl e')
      with True "1.prems" have "e' = e" by (simp add: strip_for.simps [of pos data])
      with Inl keeps_error [of "data ! pos" e] True show ?thesis by auto
    next
      case (Inr b)
      show ?thesis
      proof (cases b)
        case True
        with \<open>pos < length data\<close> Inr "1.IH"(1) "1.prems" show ?thesis
          by (simp add: strip_for.simps [of pos data])
      next
        case False
        with \<open>pos < length data\<close> Inr "1.prems"
        have "snd (strip_for (Suc pos) (remove1 (data ! pos) data)) = Some e"
          by (simp add: strip_for.simps [of pos data])
        with \<open>pos < length data\<close> Inr False "1.IH"(2) [of False]
        have "e = AttributeError \<and> (\<exists>u \<in> set (remove1 (data ! pos) data). duration u = None)"
          by simp
        then show ?thesis using set_remove1_subset by fast
      qed
    qed
  qed
qed

text \<open>
  C8 (evaluation of the code where the claim fails). On a list of two units whose
  texts are a blank and the empty string, both with duration 1, one in-place
  \<open>strip_empty\<close> removes the first unit only: removing it moves the second one into
  the position the iterator has already passed. The unit left has empty trimmed
  text, and a second \<open>strip_empty\<close> removes it, so the second application changes
  the list again.
\<close>

theorem strip_empty_skips_after_removal:
  "strip_empty [[bare_unit '' '' 1 0, bare_unit [] 1 1]] 0 False
     = ([[bare_unit [] 1 1]], Inr None)
   \<and> py_strip (text_str (bare_unit [] 1 1)) = []
   \<and> strip_empty [[bare_unit [] 1 1]] 0 False = ([[]], Inr None)"
  by code_simp

text \<open>
  C9. \<open>strip_empty(return_new=True)\<close> leaves the receiver as it was: every list that
  existed before the call, the receiver among them, has the same elements in the
  same order afterwards. When every unit has its duration set, the call returns a
  list allocated during the call; otherwise it raises \<open>AttributeError\<close>, and the
  receiver is unchanged then too.
\<close>

theorem strip_empty_return_new_frame:
  assumes "self < length st"
  shows "case strip_empty st self True of (st', r) \<Rightarrow>
           take (length st) st' = st \<and> st' ! self = st ! self
           \<and> (case r of
                Inr (Some new) \<Rightarrow> length st \<le> new \<and> new < length st'
                    \<and> st' ! new = fst (strip_for 0 (st ! self))
              | Inr None \<Rightarrow> False
              | Inl e \<Rightarrow> e = AttributeError \<and> (\<exists>u \<in> set (st ! self). duration u = None))
           \<and> ((\<forall>u \<in> set (st ! self). duration u \<noteq> None) \<longrightarrow> (\<exists>new. r = Inr (Some new)))"
  using assms strip_for_error [of 0 "st ! self"] strip_for_no_error [of "st ! self" 0]
  by (auto simp: strip_empty_def alloc_def Let_def nth_append
           split: prod.splits option.splits sum.splits)

theorem strip_empty_return_new_frame_witness:
  "(0::nat) < length [[bare_unit '' '' 1 0, bare_unit ''a'' 1 1]]
   \<and> strip_empty [[bare_unit '' '' 1 0, bare_unit ''a'' 1 1]] 0 True
       = ([[bare_unit '' '' 1 0, bare_unit ''a'' 1 1], [bare_unit ''a'' 1 1], [bare_unit ''a'' 1 1]],
          Inr (Some 2))
   \<and> take (length [[bare_unit '' '' 1 0, bare_unit ''a'' 1 1]])
        (fst (strip_empty [[bare_unit '' '' 1 0, bare_unit ''a'' 1 1]] 0 True))
       = [[bare_unit '' '' 1 0, bare_unit ''a'' 1 1]]"
proof -
  have ev: "strip_empty [[bare_unit '' '' 1 0, bare_unit ''a'' 1 1]] 0 True
       = ([[bare_unit '' '' 1 0, bare_unit ''a'' 1 1], [bare_unit ''a'' 1 1], [bare_unit ''a'' 1 1]],
          Inr (Some 2))"
    by code_simp
  have len: "(0::nat) < length [[bare_unit '' '' 1 0, bare_unit ''a'' 1 1]]" by simp
  from strip_empty_return_new_frame [OF len] ev len show ?thesis
    by (simp split: prod.splits)
qed

subsection \<open>Line.add_data\<close>






subsection \<open>Line.add_chars\<close>

lemma for_units_all:
  assumes "\<And>s u u' s'. body s u = (u', Inr s') \<Longrightarrow> P u'"
    and "for_units body s us = (us', None)"
  shows "\<forall>u \<in> set us'. P u"
  using assms(2)
proof (induction us arbitrary: s us')
  case Nil
  then show ?case by simp
next
  case (Cons u us)
  obtain u1 r where b: "body s u = (u1, r)" by (cases "body s u") auto
  show ?case
  proof (cases r)
    case (Inl e)
    with b Cons.prems show ?thesis by simp
  next
    case (Inr s1)
    obtain us1 r1 where l: "for_units body s1 us = (us1, r1)"
      by (cases "for_units body s1 us") auto
    with b Inr Cons.prems have e: "us' = u1 # us1" "r1 = None" by simp_all
    from assms(1) [of s u u1 s1] b Inr have "P u1" by simp
    moreover from Cons.IH [of s1 us1] l e have "\<forall>u \<in> set us1. P u" by simp
    ultimately show ?thesis using e by simp
  qed
qed

lemma char_step_h_eq:
  assumes "an_is_left st"
  shows "char_step_h self st cur_x c =
     copy_vertical self ((set_horizontal cur_x c)\<lparr>x_pos := Some (cur_x + width c)\<rparr>)
        (cur_x + width c + spacing st)"
proof -
  have nc: "\<not> an_is_center st" using assms by (auto simp: an_is_left_def an_is_center_def)
  show ?thesis
    by (simp add: char_step_h_def Let_def assms nc set_horizontal_def)
qed

lemma copy_vertical_horizontal:
  "left (fst (copy_vertical self u s)) = left u \<and> right (fst (copy_vertical self u s)) = right u
   \<and> center (fst (copy_vertical self u s)) = center u \<and> x_pos (fst (copy_vertical self u s)) = x_pos u"
  by (simp add: copy_vertical_def need_def split: option.splits)

lemma copy_vertical_width:
  "width (fst (copy_vertical self u s)) = width u"
  by (simp add: copy_vertical_def need_def split: option.splits)

lemma char_step_h_left:
  assumes "an_is_left st"
  shows "left (fst (char_step_h self st cur_x c)) = Some cur_x"
    and "right (fst (char_step_h self st cur_x c)) = Some (cur_x + width c)"
    and "x_pos (fst (char_step_h self st cur_x c)) = Some (cur_x + width c)"
    and "width (fst (char_step_h self st cur_x c)) = width c"
  unfolding char_step_h_eq [OF assms]
  by (simp_all add: copy_vertical_horizontal copy_vertical_width set_horizontal_def)
lemma chars_of_el_no_meta:
  "meta self = None \<Longrightarrow> chars_of_el font self ids kel = Inr cs \<Longrightarrow> cs = []"
  by (auto simp: chars_of_el_def Let_def split: prod.splits option.splits if_splits)

lemma chars_loop_no_meta:
  "meta self = None \<Longrightarrow> chars_loop font self ids kels = (cs, None) \<Longrightarrow> cs = []"
proof (induction kels arbitrary: cs)
  case Nil
  then show ?case by simp
next
  case (Cons kel kels)
  show ?case
  proof (cases "chars_of_el font self ids kel")
    case (Inl e)
    with Cons.prems show ?thesis by simp
  next
    case (Inr c1)
    obtain c2 r where l: "chars_loop font self ids kels = (c2, r)"
      by (cases "chars_loop font self ids kels") auto
    with Inr Cons.prems have "cs = c1 @ c2" "r = None" by simp_all
    moreover have "c1 = []" using chars_of_el_no_meta [OF Cons.prems(1) Inr] .
    moreover have "c2 = []" using Cons.IH [OF Cons.prems(1)] l \<open>r = None\<close> by simp
    ultimately show ?thesis by simp
  qed
qed

lemma chars_layout_left:
  assumes "style l0 = Some st" "an_is_left st" "an_is_top st \<or> an_is_bottom st \<or> \<not> vk"
    and "chars_layout vk l0 cs = (l', None)" "meta l0 = None \<longrightarrow> cs = []"
  shows "\<exists>cs'. chars l' = Some cs' \<and> (\<forall>c \<in> set cs'. x_at_right c)"
proof (cases "meta l0")
  case None
  with assms show ?thesis by (auto simp: chars_layout_def)
next
  case (Some mt)
  show ?thesis
  proof (cases "left l0")
    case None
    with Some assms show ?thesis by (auto simp: chars_layout_def)
  next
    case (Some cur_x)
    obtain cs' r where f: "for_units (char_step_h l0 st) cur_x cs = (cs', r)"
      by (cases "for_units (char_step_h l0 st) cur_x cs") auto
    with assms \<open>meta l0 = Some mt\<close> Some have e: "l' = l0\<lparr>chars := Some cs'\<rparr>" "r = None"
      by (auto simp: chars_layout_def)
    have "\<forall>c \<in> set cs'. x_at_right c"
    proof (rule for_units_all [of "char_step_h l0 st" x_at_right cur_x cs cs'])
      fix s u u' s'
      assume "char_step_h l0 st s u = (u', Inr s')"
      then have u': "u' = fst (char_step_h l0 st s u)" by simp
      show "x_at_right u'"
        unfolding x_at_right_def u' by (simp add: char_step_h_left [OF assms(2)])
    next
      show "for_units (char_step_h l0 st) cur_x cs = (cs', None)" using f e by simp
    qed
    with e show ?thesis by simp
  qed
qed

text \<open>
  C4. In the horizontal char pass of \<open>add_chars\<close> (top or bottom alignment, or
  \<open>vertical_kanji\<close> off) on a line whose style alignment is 1, 4 or 7: when the
  pass completes, every char has \<open>x\<close> equal to its right edge, \<open>left + width\<close>,
  which differs from its left edge whenever the char has a width.
\<close>

theorem add_chars_left_x_is_right:
  assumes "style self = Some st" "alignment st \<in> {1, 4, 7}"
    and "an_is_top st \<or> an_is_bottom st \<or> \<not> vk"
    and "snd (add_chars font vk self) = None"
  shows "\<exists>cs. chars (fst (add_chars font vk self)) = Some cs
     \<and> (\<forall>c \<in> set cs. \<exists>lf. left c = Some lf \<and> right c = Some (lf + width c)
            \<and> x_pos c = right c \<and> (width c \<noteq> 0 \<longrightarrow> x_pos c \<noteq> left c))"
proof -
  define l0 where "l0 = self\<lparr>chars := Some []\<rparr>"
  have st: "style l0 = Some st" and al: "an_is_left st"
    using assms(1,2) by (simp_all add: l0_def an_is_left_def)
  have lay: "\<And>cs l'. chars_layout vk l0 cs = (l', None) \<Longrightarrow> (meta l0 = None \<longrightarrow> cs = [])
      \<Longrightarrow> \<exists>cs'. chars l' = Some cs' \<and> (\<forall>c \<in> set cs'. x_at_right c)"
    by (rule chars_layout_left [OF st al assms(3)])
  have "\<exists>cs. chars (fst (add_chars font vk self)) = Some cs \<and> (\<forall>c \<in> set cs. x_at_right c)"
  proof (cases "syls l0")
    case None
    with assms(4) show ?thesis by (simp add: add_chars_def l0_def [symmetric])
  next
    case (Some sys)
    show ?thesis
    proof (cases sys)
      case (Cons sy rest)
      obtain cs r where cl: "chars_loop font l0 (\<lambda>el. (word_i el, Some (i_idx el))) (enumerate 0 (sy # rest)) = (cs, r)"
        by (cases "chars_loop font l0 (\<lambda>el. (word_i el, Some (i_idx el))) (enumerate 0 (sy # rest))") auto
      show ?thesis
      proof (cases r)
        case (Some e)
        with cl \<open>syls l0 = Some sys\<close> Cons assms(4) show ?thesis
          by (simp add: add_chars_def l0_def [symmetric])
      next
        case None
        have ac: "add_chars font vk self = chars_layout vk l0 cs"
          using cl None \<open>syls l0 = Some sys\<close> Cons by (simp add: add_chars_def l0_def [symmetric])
        obtain l' r' where cy: "chars_layout vk l0 cs = (l', r')" by (cases "chars_layout vk l0 cs") auto
        with ac assms(4) have "r' = None" by simp
        moreover have "meta l0 = None \<longrightarrow> cs = []"
          using chars_loop_no_meta cl None by blast
        ultimately show ?thesis using lay [of cs l'] cy ac by simp
      qed
    next
      case Nil
      show ?thesis
      proof (cases "words l0")
        case None
        with \<open>syls l0 = Some sys\<close> Nil assms(4) show ?thesis
          by (simp add: add_chars_def l0_def [symmetric])
      next
        case (Some ws)
        show ?thesis
        proof (cases ws)
          case Nil
          with \<open>syls l0 = Some sys\<close> \<open>sys = []\<close> Some show ?thesis
            by (simp add: add_chars_def l0_def [symmetric]) (simp add: l0_def)
        next
          case (Cons w rest)
          obtain cs r where cl: "chars_loop font l0 (\<lambda>el. (i_idx el, None)) (enumerate 0 ws) = (cs, r)"
            by (cases "chars_loop font l0 (\<lambda>el. (i_idx el, None)) (enumerate 0 ws)") auto
          show ?thesis
          proof (cases r)
            case (Some e)
            with cl \<open>syls l0 = Some sys\<close> \<open>sys = []\<close> \<open>words l0 = Some ws\<close> Cons assms(4) show ?thesis
              by (simp add: add_chars_def l0_def [symmetric])
          next
            case None
            have ac: "add_chars font vk self = chars_layout vk l0 cs"
              using cl None \<open>syls l0 = Some sys\<close> \<open>sys = []\<close> \<open>words l0 = Some ws\<close> Cons
              by (simp add: add_chars_def l0_def [symmetric])
            obtain l' r' where cy: "chars_layout vk l0 cs = (l', r')" by (cases "chars_layout vk l0 cs") auto
            with ac assms(4) have "r' = None" by simp
            moreover have "meta l0 = None \<longrightarrow> cs = []"
              using chars_loop_no_meta cl None by blast
            ultimately show ?thesis using lay [of cs l'] cy ac by simp
          qed
        qed
      qed
    qed
  qed
  then show ?thesis by (simp add: x_at_right_def)
qed

theorem add_chars_left_x_is_right_witness:
  "style left_sample = Some (default_style\<lparr>alignment := 7\<rparr>)
   \<and> alignment (default_style\<lparr>alignment := 7\<rparr>) \<in> {1, 4, 7}
   \<and> an_is_top (default_style\<lparr>alignment := 7\<rparr>)
   \<and> snd (add_chars mono_font False left_sample) = None
   \<and> map_option (map (\<lambda>c. (left c, right c, x_pos c))) (chars (fst (add_chars mono_font False left_sample)))
       = Some [(Some 10, Some 20, Some 20), (Some 20, Some 30, Some 30), (Some 30, Some 40, Some 40),
               (Some 40, Some 50, Some 50), (Some 50, Some 60, Some 60)]
   \<and> (\<exists>cs. chars (fst (add_chars mono_font False left_sample)) = Some cs
        \<and> (\<forall>c \<in> set cs. \<exists>lf. left c = Some lf \<and> right c = Some (lf + width c)
              \<and> x_pos c = right c \<and> (width c \<noteq> 0 \<longrightarrow> x_pos c \<noteq> left c)))"
proof -
  have h1: "style left_sample = Some (default_style\<lparr>alignment := 7\<rparr>)" by code_simp
  have h2: "alignment (default_style\<lparr>alignment := 7\<rparr>) \<in> {1, 4, 7}" by code_simp
  have h3: "an_is_top (default_style\<lparr>alignment := 7\<rparr>)" by code_simp
  have h4: "snd (add_chars mono_font False left_sample) = None" by code_simp
  have ev: "map_option (map (\<lambda>c. (left c, right c, x_pos c))) (chars (fst (add_chars mono_font False left_sample)))
       = Some [(Some 10, Some 20, Some 20), (Some 20, Some 30, Some 30), (Some 30, Some 40, Some 40),
               (Some 40, Some 50, Some 50), (Some 50, Some 60, Some 60)]" by code_simp
  from add_chars_left_x_is_right [OF h1 h2 disjI1 [OF h3] h4] h1 h2 h3 h4 ev
  show ?thesis by blast
qed

subsection \<open>Line.add_syls\<close>

lemma for_units_map:
  assumes "\<And>s u. f (fst (body s u)) = f u"
  shows "map f (fst (for_units body s us)) = map f us"
proof (induction us arbitrary: s)
  case Nil
  show ?case by simp
next
  case (Cons u us)
  obtain u' r where b: "body s u = (u', r)" by (cases "body s u") auto
  have fu: "f u' = f u" using assms [of s u] b by simp
  show ?case
  proof (cases r)
    case (Inl e)
    with b fu show ?thesis by simp
  next
    case (Inr s')
    obtain us' r' where l: "for_units body s' us = (us', r')" by (cases "for_units body s' us") auto
    with Cons.IH [of s'] have "map f us' = map f us" by simp
    with b Inr l fu show ?thesis by simp
  qed
qed

lemma copy_vertical_timing: "timing (fst (copy_vertical self u s)) = timing u"
  by (simp add: copy_vertical_def need_def timing_def split: option.splits)

lemma syl_step_h_timing: "timing (fst (syl_step_h self st mt sw cur_x syl)) = timing syl"
proof (cases "prespace syl")
  case None
  then show ?thesis by (simp add: syl_step_h_def need_def Let_def timing_def)
next
  case (Some pre)
  show ?thesis
  proof (cases "postspace syl")
    case None
    with Some show ?thesis
      by (simp add: syl_step_h_def need_def Let_def timing_def set_x_def set_horizontal_def)
  next
    case (Some post)
    with \<open>prespace syl = Some pre\<close> show ?thesis
      by (simp add: syl_step_h_def need_def Let_def set_x_def set_horizontal_def copy_vertical_timing)
         (simp add: timing_def)
  qed
qed

lemma syl_step_v_timing: "timing (fst (syl_step_v self st mt mw cur_y syl)) = timing syl"
  by (simp add: syl_step_v_def need_def Let_def set_stacked_def set_horizontal_def timing_def
      split: option.splits)

lemma syl_h_units:
  "for_units (syl_step_h self st mt sw) c us = (us', r) \<Longrightarrow> map timing us' = map timing us"
  using for_units_map [of timing "syl_step_h self st mt sw" c us, OF syl_step_h_timing] by simp

lemma syl_v_units:
  "for_units (syl_step_v self st mt mw) c us = (us', r) \<Longrightarrow> map timing us' = map timing us"
  using for_units_map [of timing "syl_step_v self st mt mw" c us, OF syl_step_v_timing] by simp

lemma add_syls_syls:
  "\<exists>ss. syls (fst (add_syls font vk self)) = Some ss
      \<and> map timing ss = map timing (syl_loop font 0 0 0 (syldata_finditer (karaoke_text (raw_text self))))"
  by (auto simp: add_syls_def Let_def split: option.splits prod.splits sum.splits
           dest: syl_h_units syl_v_units)

lemma add_syls_duration: "duration (fst (add_syls font vk self)) = duration self"
  by (simp add: add_syls_def Let_def split: option.splits prod.splits sum.splits)

lemma add_ptag_timing: "timing (add_ptag p syl) = timing syl"
  by (simp add: add_ptag_def timing_def)

lemma fold_add_ptag_timing: "timing (fold add_ptag ps syl) = timing syl"
  by (induction ps arbitrary: syl) (simp_all add: add_ptag_timing)

lemma make_syl_timing:
  "timing (make_syl font si wi t k0)
     = (si, t, Time_add t (of_nat (dec_val (kdur k0)) / 100),
        Some (of_nat (dec_val (kdur k0)) / 100), syltext k0,
        fst (text_extents font (syltext k0)), snd (text_extents font (syltext k0)))"
  by (simp add: make_syl_def Let_def fold_add_ptag_timing split: prod.splits)
     (simp add: timing_def new_Syllable_def)

lemma make_syl_end:
  "end_time (make_syl font si wi t k0) = Time_add t (of_nat (dec_val (kdur k0)) / 100)"
  using make_syl_timing [of font si wi t k0] by (simp add: timing_def)











lemma scenario_match: "match_line scenario_line
    = Some (''Dialogue'', ''0,0:00:01.00,0:00:03.00,Default,,0,0,0,,'' @ scenario_raw)"
  by code_simp

lemma scenario_split: "py_split (CHR '','') (''0,0:00:01.00,0:00:03.00,Default,,0,0,0,,'' @ scenario_raw)
    = [''0'', ''0:00:01.00'', ''0:00:03.00'', ''Default'', [], ''0'', ''0'', ''0'', [], scenario_raw]"
  by code_simp

lemma scenario_values:
  "py_int ''0'' = Inr 0" "Time_from_ts ''0:00:01.00'' = Inr 1" "Time_from_ts ''0:00:03.00'' = Inr 3"
  "Time_sub 3 1 = 2"
  by code_simp+

lemma scenario_from_text:
  "\<exists>l. Line_from_text fa scenario_line i fp m sts False = Inr l
       \<and> duration l = Some 2 \<and> start_time l = 1 \<and> end_time l = 3 \<and> raw_text l = scenario_raw"
  by (simp add: Line_from_text_def scenario_match scenario_split scenario_values
        ebind_def py_index_def Let_def AssText.defs Line.defs del: append.simps)

lemma scenario_matches:
  "syldata_finditer (karaoke_text scenario_raw)
     = [\<lparr>pretags = [], kdur = ''50'', posttags = [], syltext = ''Hel''\<rparr>,
        \<lparr>pretags = [], kdur = ''50'', posttags = [], syltext = ''lo''\<rparr>]"
  by code_simp

lemma dec_val_50: "(of_nat (dec_val ''50'') :: rat) / 100 = 1 / 2"
  by code_simp

text \<open>
  C3. Parsing the scenario line with \<open>fix_timestamps = False\<close>, at any frame rate
  and with any index, meta and styles, gives a line of duration 2; \<open>add_syls\<close> on
  it, with any font, gives exactly the two syllables "Hel" and "lo", each of
  duration 1/2, and leaves the duration of the line at 2.
\<close>

theorem scenario_two_syllables:
  "\<exists>l. Line_from_text fa scenario_line i fp m sts False = Inr l
     \<and> duration l = Some 2
     \<and> duration (fst (add_syls font vk l)) = Some 2
     \<and> (\<exists>ss. syls (fst (add_syls font vk l)) = Some ss
           \<and> map text_str ss = [''Hel'', ''lo'']
           \<and> map duration ss = [Some (1 / 2), Some (1 / 2)])"
proof -
  obtain l where l: "Line_from_text fa scenario_line i fp m sts False = Inr l"
    and d: "duration l = Some 2" and r: "raw_text l = scenario_raw"
    using scenario_from_text [of fa i fp m sts] by blast
  obtain ss where ss: "syls (fst (add_syls font vk l)) = Some ss"
    and tm: "map timing ss = map timing (syl_loop font 0 0 0 (syldata_finditer (karaoke_text (raw_text l))))"
    using add_syls_syls by blast
  have tm2: "map timing ss =
      [(0, 0, 1 / 2, Some (1 / 2), ''Hel'', fst (text_extents font ''Hel''), snd (text_extents font ''Hel'')),
       (1, 1 / 2, 1, Some (1 / 2), ''lo'', fst (text_extents font ''lo''), snd (text_extents font ''lo''))]"
    unfolding tm r scenario_matches
    by (simp add: Let_def make_syl_timing make_syl_end dec_val_50 Time_add_def)
  have tx: "map text_str ss = map (\<lambda>t. fst (snd (snd (snd (snd t))))) (map timing ss)"
    by (simp add: timing_def)
  have du: "map duration ss = map (\<lambda>t. fst (snd (snd (snd t)))) (map timing ss)"
    by (simp add: timing_def)
  have "map text_str ss = [''Hel'', ''lo'']" unfolding tx tm2 by simp
  moreover have "map duration ss = [Some (1 / 2), Some (1 / 2)]" unfolding du tm2 by simp
  ultimately show ?thesis using l d ss add_syls_duration [of font vk l] by simp
qed

theorem scenario_two_syllables_witness:
  "\<exists>l. Line_from_text no_assts scenario_line 0 (24000 / 1001) None None False = Inr l
     \<and> duration l = Some 2
     \<and> duration (fst (add_syls mono_font False l)) = Some 2
     \<and> (\<exists>ss. syls (fst (add_syls mono_font False l)) = Some ss
           \<and> map text_str ss = [''Hel'', ''lo'']
           \<and> map duration ss = [Some (1 / 2), Some (1 / 2)])"
  by (rule scenario_two_syllables)

subsection \<open>Ass.__init__: lead-in and lead-out\<close>

lemma add_data_frame: "frame (add_data font l) = frame l"
  by (simp add: add_data_def frame_def Let_def split: prod.splits option.splits)

lemma add_words_frame: "frame (fst (add_words font l)) = frame l"
  by (simp add: add_words_def frame_def Let_def split: prod.splits option.splits sum.splits)

lemma add_syls_frame: "frame (fst (add_syls font vk l)) = frame l"
  by (simp add: add_syls_def frame_def Let_def split: prod.splits option.splits sum.splits)

lemma fix_line_frame: "frame (fst (fix_line st pry mw sh l)) = frame l"
  by (simp add: fix_line_def frame_def Let_def split: option.splits)

lemma chars_layout_frame: "frame (fst (chars_layout vk l cs)) = frame l"
proof -
  have f: "\<And>st pry mw sh l1 r. fix_line st pry mw sh l = (l1, r) \<Longrightarrow> frame l1 = frame l"
    using fix_line_frame by (metis fst_conv)
  have g: "\<And>l1 x. frame (l1\<lparr>chars := x\<rparr>) = frame l1" by (simp add: frame_def)
  show ?thesis
    by (simp add: chars_layout_def g split: prod.splits option.splits sum.splits)
       (auto dest: f)
qed

lemma add_chars_frame: "frame (fst (add_chars font vk l)) = frame l"
proof -
  have g: "\<And>l1 x. frame (l1\<lparr>chars := x\<rparr>) = frame l1" by (simp add: frame_def)
  show ?thesis
    by (simp add: add_chars_def Let_def g chars_layout_frame
          split: prod.splits option.splits sum.splits list.splits)
qed

lemma decompose_frame: "decompose font vk l = Inr l' \<Longrightarrow> frame l' = frame l"
proof -
  assume a: "decompose font vk l = Inr l'"
  obtain l2 r2 where w: "add_words font (add_data font l) = (l2, r2)"
    by (cases "add_words font (add_data font l)") auto
  obtain l3 r3 where s: "add_syls font vk l2 = (l3, r3)" by (cases "add_syls font vk l2") auto
  obtain l4 r4 where c: "add_chars font vk l3 = (l4, r4)" by (cases "add_chars font vk l3") auto
  from a w s c have "l' = l4" by (simp add: decompose_def split: option.splits)
  moreover have "frame l2 = frame l" using add_words_frame [of font "add_data font l"] w add_data_frame by simp
  moreover have "frame l3 = frame l2" using add_syls_frame [of font vk l2] s by simp
  moreover have "frame l4 = frame l3" using add_chars_frame [of font vk l3] c by simp
  ultimately show ?thesis by simp
qed

lemma extend_lines_result:
  assumes "extend_lines gf vk ks ls g = Inr (ls1, g1)" "\<forall>k \<in> set ks. k < length ls"
  shows "length ls1 = length ls \<and> map frame ls1 = map frame ls \<and> g1 = fold (gstep ls) ks g"
  using assms
proof (induction ks arbitrary: ls g)
  case Nil
  then show ?case by simp
next
  case (Cons k ks)
  have kl: "k < length ls" using Cons.prems(2) by simp
  show ?case
  proof (cases "style (ls ! k)")
    case None
    then have "gstep ls k g = g" by (simp add: gstep_def sname_def)
    moreover from None Cons.prems have "extend_lines gf vk ks ls g = Inr (ls1, g1)" by simp
    ultimately show ?thesis using Cons.IH [of ls g] Cons.prems(2) by simp
  next
    case (Some st)
    with Cons.prems(1) obtain l' where d: "decompose (gf st) vk (ls ! k) = Inr l'"
      and e: "extend_lines gf vk ks (ls[k := l']) (group_append (name st) k g) = Inr (ls1, g1)"
      by (auto split: sum.splits)
    have fr: "frame l' = frame (ls ! k)" using decompose_frame [OF d] .
    have mf: "map frame (ls[k := l']) = map frame ls"
      using kl fr by (simp add: map_update list_update_same_conv)
    have gs: "gstep ls k g = group_append (name st) k g" using Some by (simp add: gstep_def sname_def)
    have sn: "\<And>j. j < length ls \<Longrightarrow> sname (ls[k := l']) j = sname ls j"
    proof -
      fix j assume j: "j < length ls"
      have "frame ((ls[k := l']) ! j) = frame (ls ! j)"
        using mf j by (metis length_list_update nth_map)
      then show "sname (ls[k := l']) j = sname ls j" by (simp add: sname_def frame_def)
    qed
    have fc: "fold (gstep (ls[k := l'])) ks (group_append (name st) k g)
              = fold (gstep ls) ks (group_append (name st) k g)"
    proof (rule fold_cong)
      fix j assume "j \<in> set ks"
      then have "j < length ls" using Cons.prems(2) by simp
      then show "gstep (ls[k := l']) j = gstep ls j" by (simp add: gstep_def sn fun_eq_iff)
    qed simp_all
    from Cons.IH [OF e] Cons.prems(2)
    have "length ls1 = length (ls[k := l']) \<and> map frame ls1 = map frame (ls[k := l'])
          \<and> g1 = fold (gstep (ls[k := l'])) ks (group_append (name st) k g)" by simp
    then show ?thesis using mf fc gs by simp
  qed
qed

lemma group_append_keys:
  "map fst (group_append s k g) = (if s \<in> set (map fst g) then map fst g else map fst g @ [s])"
  by (induction g) force+

lemma group_append_set_old:
  "distinct (map fst g) \<Longrightarrow> s \<in> fst ` set g \<Longrightarrow>
     set (group_append s k g) = (\<lambda>(s', js). if s' = s then (s', js @ [k]) else (s', js)) ` set g"
proof (induction g)
  case Nil
  then show ?case by simp
next
  case (Cons a g)
  obtain s' js where a: "a = (s', js)" by (cases a) auto
  show ?case
  proof (cases "s' = s")
    case True
    have "\<forall>x \<in> set g. fst x \<noteq> s" using Cons.prems(1) a True by auto
    then have "(\<lambda>(s', js). if s' = s then (s', js @ [k]) else (s', js)) ` set g = set g"
      by (force simp: image_def split: prod.splits)
    with a True show ?thesis by simp
  next
    case False
    with Cons.prems a have "s \<in> fst ` set g" "distinct (map fst g)" by auto
    from Cons.IH [OF this(2) this(1)] a False show ?thesis by simp
  qed
qed

lemma group_append_set_new:
  "s \<notin> fst ` set g \<Longrightarrow> set (group_append s k g) = set g \<union> {(s, [k])}"
  by (induction g) auto

lemma ginv_step: "ginv ls g m \<Longrightarrow> ginv ls (gstep ls m g) (Suc m)"
proof -
  assume inv: "ginv ls g m"
  then have d: "distinct (map fst g)"
    and f: "\<And>s js. (s, js) \<in> set g \<Longrightarrow> js = filter (\<lambda>j. sname ls j = Some s) [0..<m] \<and> js \<noteq> []"
    and c: "\<And>j s. j < m \<Longrightarrow> sname ls j = Some s \<Longrightarrow> s \<in> fst ` set g"
    by (auto simp: ginv_def)
  show ?thesis
  proof (cases "sname ls m")
    case None
    then have g: "gstep ls m g = g" by (simp add: gstep_def)
    have "\<And>s js. (s, js) \<in> set g \<Longrightarrow> js = filter (\<lambda>j. sname ls j = Some s) [0..<Suc m] \<and> js \<noteq> []"
      using f None by simp
    moreover have "\<And>j s. j < Suc m \<Longrightarrow> sname ls j = Some s \<Longrightarrow> s \<in> fst ` set g"
      using c None by (metis less_Suc_eq option.distinct(1))
    ultimately show ?thesis unfolding g ginv_def using d by blast
  next
    case (Some s)
    then have g: "gstep ls m g = group_append s m g" by (simp add: gstep_def)
    show ?thesis
    proof (cases "s \<in> fst ` set g")
      case True
      have keys: "map fst (group_append s m g) = map fst g"
        using True by (simp add: group_append_keys)
      have st: "set (group_append s m g) = (\<lambda>(s', js). if s' = s then (s', js @ [m]) else (s', js)) ` set g"
        using group_append_set_old [OF d True] .
      have a: "\<And>s' js'. (s', js') \<in> set (group_append s m g) \<Longrightarrow>
                js' = filter (\<lambda>j. sname ls j = Some s') [0..<Suc m] \<and> js' \<noteq> []"
      proof -
        fix s' js' assume "(s', js') \<in> set (group_append s m g)"
        then obtain js where o: "(s', js) \<in> set g" "js' = (if s' = s then js @ [m] else js)"
          unfolding st by (auto split: if_splits)
        from f [OF o(1)] o(2) Some
        show "js' = filter (\<lambda>j. sname ls j = Some s') [0..<Suc m] \<and> js' \<noteq> []" by auto
      qed
      have b: "\<And>j s'. j < Suc m \<Longrightarrow> sname ls j = Some s' \<Longrightarrow> s' \<in> fst ` set (group_append s m g)"
      proof -
        fix j s' assume j: "j < Suc m" "sname ls j = Some s'"
        have "s' \<in> set (map fst g)"
        proof (cases "j = m")
          case True
          with j Some \<open>s \<in> fst ` set g\<close> show ?thesis by simp
        next
          case False
          with j c [of j s'] show ?thesis by simp
        qed
        then show "s' \<in> fst ` set (group_append s m g)" using keys by (metis set_map)
      qed
      show ?thesis unfolding g ginv_def using d keys a b by auto
    next
      case False
      have keys: "map fst (group_append s m g) = map fst g @ [s]"
        using False by (simp add: group_append_keys)
      have st: "set (group_append s m g) = set g \<union> {(s, [m])}"
        using group_append_set_new [OF False] .
      have none: "filter (\<lambda>j. sname ls j = Some s) [0..<m] = []"
      proof (rule ccontr)
        assume "filter (\<lambda>j. sname ls j = Some s) [0..<m] \<noteq> []"
        then obtain j where "j < m" "sname ls j = Some s"
          by (auto simp: filter_empty_conv)
        with c [of j s] False show False by simp
      qed
      have a: "\<And>s' js'. (s', js') \<in> set (group_append s m g) \<Longrightarrow>
                js' = filter (\<lambda>j. sname ls j = Some s') [0..<Suc m] \<and> js' \<noteq> []"
      proof -
        fix s' js' assume "(s', js') \<in> set (group_append s m g)"
        then consider "(s', js') \<in> set g" | "s' = s" "js' = [m]" unfolding st by auto
        then show "js' = filter (\<lambda>j. sname ls j = Some s') [0..<Suc m] \<and> js' \<noteq> []"
        proof cases
          case 1
          then have "s' \<noteq> s" using False by force
          with f [OF 1] Some show ?thesis by auto
        next
          case 2
          with none Some show ?thesis by simp
        qed
      qed
      have b: "\<And>j s'. j < Suc m \<Longrightarrow> sname ls j = Some s' \<Longrightarrow> s' \<in> fst ` set (group_append s m g)"
      proof -
        fix j s' assume j: "j < Suc m" "sname ls j = Some s'"
        show "s' \<in> fst ` set (group_append s m g)"
        proof (cases "j = m")
          case True
          with j Some show ?thesis unfolding st by simp
        next
          case False
          with j c [of j s'] show ?thesis unfolding st by auto
        qed
      qed
      have dk: "distinct (map fst (group_append s m g))"
        unfolding keys using d False by (simp add: image_iff) 
      show ?thesis unfolding g ginv_def using dk a b by auto
    qed
  qed
qed

lemma ginv_fold: "ginv ls (fold (gstep ls) [0..<m] []) m"
proof (induction m)
  case 0
  show ?case by (simp add: ginv_def)
next
  case (Suc m)
  from ginv_step [OF Suc] show ?case by simp
qed

lemma zip_offset3_cur: "(p, Some k, n) \<in> set (zip_offset3 q js) \<Longrightarrow> k \<in> set js"
  by (induction js arbitrary: q) auto

lemma zip_offset3_at:
  "(lastopt q xs, Some k, hdopt ys) \<in> set (zip_offset3 q (xs @ k # ys))"
proof (induction xs arbitrary: q)
  case Nil
  show ?case by (simp add: lastopt_def hdopt_def)
next
  case (Cons c cs)
  have "lastopt q (c # cs) = lastopt (Some c) cs" by (simp add: lastopt_def)
  with Cons [of "Some c"] show ?case by simp
qed

lemma zip_offset3_unique:
  "distinct (xs @ k # ys) \<Longrightarrow> (p, Some k, n) \<in> set (zip_offset3 q (xs @ k # ys))
     \<Longrightarrow> p = lastopt q xs \<and> n = hdopt ys"
proof (induction xs arbitrary: q)
  case Nil
  from Nil.prems(1) have "k \<notin> set ys" by simp
  with zip_offset3_cur [of p k n "Some k" ys] have "(p, Some k, n) \<notin> set (zip_offset3 (Some k) ys)"
    by blast
  with Nil.prems(2) show ?case by (simp add: lastopt_def hdopt_def)
next
  case (Cons c cs)
  from Cons.prems(1) have ne: "c \<noteq> k" and d: "distinct (cs @ k # ys)" by auto
  from Cons.prems(2) ne have "(p, Some k, n) \<in> set (zip_offset3 (Some c) (cs @ k # ys))" by simp
  from Cons.IH [OF d this] show ?case by (simp add: lastopt_def)
qed

lemma lead_step_length: "length (lead_step dl z ls) = length ls"
  by (simp add: lead_step_def split: prod.splits option.splits)

lemma lead_step_times:
  "start_time (lead_step dl z ls ! j) = start_time (ls ! j)
   \<and> end_time (lead_step dl z ls ! j) = end_time (ls ! j)"
proof (cases z)
  case (fields p c n)
  show ?thesis
  proof (cases c)
    case None
    with fields show ?thesis by (simp add: lead_step_def)
  next
    case (Some k)
    show ?thesis
    proof (cases "j = k \<and> k < length ls")
      case True
      with fields Some show ?thesis by (simp add: lead_step_def)
    next
      case False
      then consider "j \<noteq> k" | "\<not> k < length ls" by blast
      then show ?thesis
      proof cases
        case 1
        with fields Some show ?thesis by (simp add: lead_step_def)
      next
        case 2
        with fields Some show ?thesis by (simp add: lead_step_def list_update_beyond)
      qed
    qed
  qed
qed

lemma lead_step_other:
  "fst (snd z) \<noteq> Some k \<Longrightarrow> lead_step dl z ls ! k = ls ! k"
proof -
  assume a: "fst (snd z) \<noteq> Some k"
  obtain p c n where z: "z = (p, c, n)" by (cases z) auto
  show ?thesis
  proof (cases c)
    case None
    with z show ?thesis by (simp add: lead_step_def)
  next
    case (Some j)
    with a z have "j \<noteq> k" by simp
    with z Some show ?thesis by (simp add: lead_step_def)
  qed
qed

lemma fold_lead_other:
  "\<forall>z \<in> set T. fst (snd z) \<noteq> Some k \<Longrightarrow> fold (lead_step dl) T ls ! k = ls ! k"
  by (induction T arbitrary: ls) (simp_all add: lead_step_other)

lemma lead_vals_step:
  "lead_in_val dl (lead_step dl' z ls) k p = lead_in_val dl ls k p"
  "lead_out_val dl (lead_step dl' z ls) k n = lead_out_val dl ls k n"
  by (simp_all add: lead_in_val_def lead_out_val_def lead_step_times split: option.splits)

lemma lead_step_at:
  "k < length ls \<Longrightarrow>
     leadin (lead_step dl (p, Some k, n) ls ! k) = Some (lead_in_val dl ls k p)
     \<and> leadout (lead_step dl (p, Some k, n) ls ! k) = Some (lead_out_val dl ls k n)"
  by (simp add: lead_step_def lead_in_val_def lead_out_val_def)

lemma fold_lead_at:
  assumes "\<forall>z \<in> set T. fst (snd z) = Some k \<longrightarrow> z = (p, Some k, n)"
    and "(p, Some k, n) \<in> set T" "k < length ls"
  shows "leadin (fold (lead_step dl) T ls ! k) = Some (lead_in_val dl ls k p)
     \<and> leadout (fold (lead_step dl) T ls ! k) = Some (lead_out_val dl ls k n)"
  using assms
proof (induction T arbitrary: ls)
  case Nil
  then show ?case by simp
next
  case (Cons z T)
  define ls1 where "ls1 = lead_step dl z ls"
  have len: "k < length ls1" using Cons.prems(3) by (simp add: ls1_def lead_step_length)
  have all: "\<forall>z \<in> set T. fst (snd z) = Some k \<longrightarrow> z = (p, Some k, n)" using Cons.prems(1) by simp
  show ?case
  proof (cases "(p, Some k, n) \<in> set T")
    case True
    from Cons.IH [OF all True len]
    show ?thesis by (simp add: ls1_def [symmetric]) (simp add: ls1_def lead_vals_step)
  next
    case False
    with Cons.prems(2) have z: "z = (p, Some k, n)" by simp
    from False all have "\<forall>z \<in> set T. fst (snd z) \<noteq> Some k" by auto
    from fold_lead_other [OF this, of dl ls1]
    have "fold (lead_step dl) (z # T) ls ! k = ls1 ! k" by (simp add: ls1_def)
    with lead_step_at [OF Cons.prems(3), of dl p n] z show ?thesis by (simp add: ls1_def)
  qed
qed

lemma all_zlines_mem:
  "z \<in> set (all_zlines g) \<longleftrightarrow> (\<exists>s js. (s, js) \<in> set g \<and> z \<in> set (zip_offset3 None js))"
  by (auto simp: all_zlines_def)

lemma upt_split: "k < n \<Longrightarrow> [0..<n] = [0..<k] @ k # [Suc k..<n]"
  by (metis less_imp_le_nat upt_add_eq_append upt_conv_Cons add_0 le_add_diff_inverse zero_le)

lemma frame_nth:
  "map frame ls1 = map frame ls \<Longrightarrow> j < length ls \<Longrightarrow> frame (ls1 ! j) = frame (ls ! j)"
  by (metis length_map nth_map)

text \<open>
  C6 (as amended). When the extended decomposition of a document completes,
  every line that has a style gets as \<open>leadin\<close> the \<open>Time\<close> difference from the end
  of the nearest earlier line with the same style name to its own start, and as
  \<open>leadout\<close> the \<open>Time\<close> difference from its own end to the start of the nearest
  later line with the same style name. Where there is no such neighbour the
  value is \<open>1 / fps * round(fps)\<close>, the duration of \<open>round(fps)\<close> frames. A line
  without a style keeps its \<open>leadin\<close> and \<open>leadout\<close> as they were.
\<close>

theorem Ass_init_leads:
  assumes "Ass_init_extended get_font vk fps_v ls = Inr ls'" "k < length ls"
  shows "length ls' = length ls
    \<and> (case style (ls ! k) of
          None \<Rightarrow> leadin (ls' ! k) = leadin (ls ! k) \<and> leadout (ls' ! k) = leadout (ls ! k)
        | Some st \<Rightarrow>
            leadin (ls' ! k) =
              Some (case prev_same_style ls k of
                      None \<Rightarrow> 1 / fps_v * of_int (py_round fps_v)
                    | Some p \<Rightarrow> Time_sub (start_time (ls ! k)) (end_time (ls ! p)))
            \<and> leadout (ls' ! k) =
              Some (case next_same_style ls k of
                      None \<Rightarrow> 1 / fps_v * of_int (py_round fps_v)
                    | Some n \<Rightarrow> Time_sub (start_time (ls ! n)) (end_time (ls ! k))))"
proof -
  define n where "n = length ls"
  from assms(1) obtain ls1 g1 dl where
    e: "extend_lines get_font vk [0..<length ls] ls [] = Inr (ls1, g1)"
    and dl: "default_lead fps_v = Inr dl"
    and r: "ls' = fold (lead_step dl) (all_zlines g1) ls1"
    by (auto simp: Ass_init_extended_def ebind_def split: sum.splits)
  have dlv: "dl = 1 / fps_v * of_int (py_round fps_v)"
    using dl by (auto simp: default_lead_def ebind_def py_truediv_def split: if_splits)
  from extend_lines_result [OF e]
  have len1: "length ls1 = length ls" and fr: "map frame ls1 = map frame ls"
    and g1: "g1 = fold (gstep ls) [0..<length ls] []" by simp_all
  have inv: "ginv ls g1 n" unfolding g1 n_def by (rule ginv_fold)
  have grp: "\<And>s js. (s, js) \<in> set g1 \<Longrightarrow> js = filter (\<lambda>j. sname ls j = Some s) [0..<n]"
    and cov: "\<And>j s. j < n \<Longrightarrow> sname ls j = Some s \<Longrightarrow> s \<in> fst ` set g1"
    using inv by (auto simp: ginv_def)
  have len': "length ls' = length ls"
  proof -
    have "\<And>T ls0. length (fold (lead_step dl) T ls0) = length ls0"
    proof -
      fix T ls0 show "length (fold (lead_step dl) T ls0) = length ls0"
        by (induction T arbitrary: ls0) (simp_all add: lead_step_length)
    qed
    then show ?thesis using r len1 by simp
  qed
  have kn: "k < n" using assms(2) by (simp add: n_def)
  have k1: "k < length ls1" using assms(2) len1 by simp
  have frk: "\<And>j. j < n \<Longrightarrow> frame (ls1 ! j) = frame (ls ! j)"
    using frame_nth [OF fr] by (simp add: n_def)
  show ?thesis
  proof (cases "style (ls ! k)")
    case None
    then have sk: "sname ls k = None" by (simp add: sname_def)
    have "\<forall>z \<in> set (all_zlines g1). fst (snd z) \<noteq> Some k"
    proof
      fix z assume z: "z \<in> set (all_zlines g1)"
      show "fst (snd z) \<noteq> Some k"
      proof
        assume c: "fst (snd z) = Some k"
        from z obtain s js where m: "(s, js) \<in> set g1" "z \<in> set (zip_offset3 None js)"
          unfolding all_zlines_mem by blast
        obtain p q where "z = (p, Some k, q)" using c by (cases z) auto
        with m(2) zip_offset3_cur have "k \<in> set js" by fast
        with grp [OF m(1)] have "sname ls k = Some s" by simp
        with sk show False by simp
      qed
    qed
    from fold_lead_other [OF this] r have "ls' ! k = ls1 ! k" by simp
    moreover from frk [OF kn] have "leadin (ls1 ! k) = leadin (ls ! k)" "leadout (ls1 ! k) = leadout (ls ! k)"
      by (simp_all add: frame_def)
    ultimately show ?thesis using None len' by simp
  next
    case (Some st)
    define s where "s = name st"
    define P where "P = (\<lambda>j. sname ls j = Some s)"
    define xs where "xs = filter P [0..<k]"
    define ys where "ys = filter P [Suc k..<n]"
    have sk: "sname ls k = Some s" using Some by (simp add: sname_def s_def)
    have Pk: "P k" using sk by (simp add: P_def)
    from cov [OF kn sk] obtain js where m: "(s, js) \<in> set g1" by force
    have js: "js = xs @ k # ys"
      using grp [OF m] Pk by (simp add: upt_split [OF kn] xs_def ys_def P_def)
    have dj: "distinct (xs @ k # ys)"
      using grp [OF m] js by (metis distinct_filter distinct_upt)
    have zin: "(lastopt None xs, Some k, hdopt ys) \<in> set (all_zlines g1)"
      unfolding all_zlines_mem using m zip_offset3_at [of None xs k ys] js by blast
    have uniq: "\<forall>z \<in> set (all_zlines g1). fst (snd z) = Some k \<longrightarrow> z = (lastopt None xs, Some k, hdopt ys)"
    proof (intro ballI impI)
      fix z assume z: "z \<in> set (all_zlines g1)" and c: "fst (snd z) = Some k"
      from z obtain s' js' where m': "(s', js') \<in> set g1" "z \<in> set (zip_offset3 None js')"
        unfolding all_zlines_mem by blast
      obtain p q where zz: "z = (p, Some k, q)" using c by (cases z) auto
      with m'(2) zip_offset3_cur have "k \<in> set js'" by fast
      with grp [OF m'(1)] have "sname ls k = Some s'" by simp
      with sk have "s' = s" by simp
      with grp [OF m'(1)] grp [OF m] have "js' = xs @ k # ys" using js by simp
      with m'(2) zz zip_offset3_unique [OF dj, of p q None] show "z = (lastopt None xs, Some k, hdopt ys)"
        by simp
    qed
    from fold_lead_at [OF uniq zin k1, of dl] r
    have li: "leadin (ls' ! k) = Some (lead_in_val dl ls1 k (lastopt None xs))"
      and lo: "leadout (ls' ! k) = Some (lead_out_val dl ls1 k (hdopt ys))" by simp_all
    have ss: "same_style ls k = P"
      using Some by (auto simp: same_style_def P_def sname_def s_def fun_eq_iff)
    have pv: "prev_same_style ls k = lastopt None xs"
      by (simp add: prev_same_style_def ss xs_def lastopt_def split: list.splits)
    have nx: "next_same_style ls k = hdopt ys"
      by (simp add: next_same_style_def ss ys_def hdopt_def n_def)
    have tk: "start_time (ls1 ! k) = start_time (ls ! k)" "end_time (ls1 ! k) = end_time (ls ! k)"
      using frk [OF kn] by (simp_all add: frame_def)
    have iv: "lead_in_val dl ls1 k (lastopt None xs) = lead_in_val dl ls k (lastopt None xs)"
    proof (cases xs)
      case Nil
      then show ?thesis by (simp add: lead_in_val_def lastopt_def)
    next
      case (Cons a as)
      then have "last xs \<in> set xs" by simp
      then have "last xs < n" using kn by (auto simp: xs_def)
      from frk [OF this] have "end_time (ls1 ! last xs) = end_time (ls ! last xs)" by (simp add: frame_def)
      with Cons tk show ?thesis by (simp add: lead_in_val_def lastopt_def)
    qed
    have ov: "lead_out_val dl ls1 k (hdopt ys) = lead_out_val dl ls k (hdopt ys)"
    proof (cases ys)
      case Nil
      then show ?thesis by (simp add: lead_out_val_def hdopt_def)
    next
      case (Cons a as)
      then have "a \<in> set ys" by simp
      then have "a < n" by (auto simp: ys_def)
      from frk [OF this] have "start_time (ls1 ! a) = start_time (ls ! a)" by (simp add: frame_def)
      with Cons tk show ?thesis by (simp add: lead_out_val_def hdopt_def)
    qed
    from li lo iv ov pv nx Some len' dlv show ?thesis
      by (simp add: lead_in_val_def lead_out_val_def split: option.splits)
  qed
qed


theorem Ass_init_leads_witness:
  "\<not> isl (Ass_init_extended (\<lambda>s. mono_font) False (24000 / 1001) three_lines)
   \<and> (2::nat) < length three_lines
   \<and> style (three_lines ! 2) = Some default_style
   \<and> prev_same_style three_lines 2 = Some 0
   \<and> next_same_style three_lines 2 = None
   \<and> leadin (projr (Ass_init_extended (\<lambda>s. mono_font) False (24000 / 1001) three_lines) ! 2) = Some 2
   \<and> leadout (projr (Ass_init_extended (\<lambda>s. mono_font) False (24000 / 1001) three_lines) ! 2)
       = Some (1001 / 1000)"
proof -
  define R where "R = Ass_init_extended (\<lambda>s. mono_font) False (24000 / 1001) three_lines"
  have h: "\<not> isl R" unfolding R_def by code_simp
  then have eq: "Ass_init_extended (\<lambda>s. mono_font) False (24000 / 1001) three_lines = Inr (projr R)"
    unfolding R_def by simp
  have k: "(2::nat) < length three_lines" by code_simp
  have st: "style (three_lines ! 2) = Some default_style" by code_simp
  have pv: "prev_same_style three_lines 2 = Some 0" by code_simp
  have nx: "next_same_style three_lines 2 = None" by code_simp
  have tm: "Time_sub (start_time (three_lines ! 2)) (end_time (three_lines ! 0)) = 2" by code_simp
  have dv: "1 / (24000 / 1001) * of_int (py_round (24000 / 1001)) = (1001 / 1000 :: rat)" by code_simp
  from Ass_init_leads [OF eq k] st pv nx tm dv h k
  show ?thesis unfolding R_def by simp
qed

text \<open>
  C6 as stated fails on the default: at 24000/1001 fps the only line of a
  document gets 1.001 s as \<open>leadin\<close> and \<open>leadout\<close>, which is the duration of 24
  frames and not of one frame (1001/24000 s).
\<close>

theorem default_lead_counterexample:
  "\<not> isl (Ass_init_extended (\<lambda>s. mono_font) False (24000 / 1001)
            [sample_line hd_meta default_style scenario_raw])
   \<and> leadin (projr (Ass_init_extended (\<lambda>s. mono_font) False (24000 / 1001)
                      [sample_line hd_meta default_style scenario_raw]) ! 0) = Some (1001 / 1000)
   \<and> leadout (projr (Ass_init_extended (\<lambda>s. mono_font) False (24000 / 1001)
                       [sample_line hd_meta default_style scenario_raw]) ! 0) = Some (1001 / 1000)
   \<and> (1001 / 1000 :: rat) \<noteq> 1 / (24000 / 1001)"
  by code_simp

subsection \<open>_MetaData: decoding and encoding\<close>

lemma wf_ScriptInfo: "wf_class ScriptInfo_cls" by code_simp
lemma wf_ProjectGarbage: "wf_class ProjectGarbage_cls" by code_simp

lemma py_split_line:
  "sep \<notin> set l \<Longrightarrow> py_split sep (l @ sep # rest) = l # py_split sep rest"
  by (induction l) (auto split: list.splits)

lemma py_split_nonempty: "py_split sep s \<noteq> []"
  by (induction s) (auto split: list.splits)

lemma meta_match_line: "meta_match v = None \<Longrightarrow> meta_match (n @ '': '' @ v) = Some (n, v)"
  by (induction n) simp_all

lemma meta_finditer_items:
  assumes "\<forall>(k, v) \<in> set items. NEWLINE \<notin> set (wire_name k) \<and> NEWLINE \<notin> set v \<and> meta_match v = None"
  shows "meta_finditer (encode_items items) = map (\<lambda>(k, v). (wire_name k, v)) items"
  using assms
proof (induction items)
  case Nil
  show ?case by (simp add: meta_finditer_def encode_items_def List.map_filter_simps)
next
  case (Cons kv items)
  obtain k v where kv: "kv = (k, v)" by (cases kv) auto
  from Cons.prems kv have a: "NEWLINE \<notin> set (wire_name k)" "NEWLINE \<notin> set v" "meta_match v = None"
    by auto
  have nl: "NEWLINE \<notin> set (wire_name k @ '': '' @ v)" using a by simp
  have e: "encode_items (kv # items) = (wire_name k @ '': '' @ v) @ NEWLINE # encode_items items"
    by (simp add: encode_items_def kv)
  have "meta_finditer (encode_items (kv # items))
          = List.map_filter meta_match ((wire_name k @ '': '' @ v) # py_split NEWLINE (encode_items items))"
    unfolding e meta_finditer_def py_split_line [OF nl] ..
  also have "\<dots> = (wire_name k, v) # meta_finditer (encode_items items)"
    using meta_match_line [OF a(3), of "wire_name k"]
    by (simp add: List.map_filter_simps meta_finditer_def del: append.simps)
  finally show ?case using Cons.IH Cons.prems kv by simp
qed

lemma upd_item_pair: "upd_item cd cls (k, v) self = self(storage cls k \<mapsto> cval cd cls k v)"
  by (simp add: upd_item_def)

lemma canonical_coerce:
  assumes "canonical_value cd cls k v"
  shows "\<exists>t. annotation cls (storage cls k) = Inr t \<and> coerce cd t v = Inr (cval cd cls k v)
            \<and> render cd (cval cd cls k v) = v"
  using assms by (auto simp: canonical_value_def cval_def split: sum.splits)

lemma wf_public:
  assumes "wf_class cls" "k \<in> set (public_slots cls)"
  shows "key_transform (wire_name k) = k" "NEWLINE \<notin> set (wire_name k)"
    "k \<in> set (slots cls) \<or> k \<in> set (slots_ex cls)" "take 1 k \<noteq> ''_''"
  using assms by (auto simp: wf_class_def list_all_iff public_slots_def)

lemma from_text_loop_items:
  assumes "wf_class cls"
    and "\<forall>(k, v) \<in> set items. k \<in> set (public_slots cls) \<and> canonical_value cd cls k v"
  shows "from_text_loop cd cls (map (\<lambda>(k, v). (wire_name k, v)) items) self
           = Inr (fold (upd_item cd cls) items self)"
  using assms(2)
proof (induction items arbitrary: self)
  case Nil
  show ?case by simp
next
  case (Cons kv items)
  obtain k v where kv: "kv = (k, v)" by (cases kv) auto
  from Cons.prems kv have p: "k \<in> set (public_slots cls)" and c: "canonical_value cd cls k v" by auto
  from canonical_coerce [OF c] obtain t where t: "annotation cls (storage cls k) = Inr t"
    "coerce cd t v = Inr (cval cd cls k v)" by blast
  note w = wf_public [OF assms(1) p]
  have rest: "from_text_loop cd cls (map (\<lambda>(k, v). (wire_name k, v)) items) (self(storage cls k \<mapsto> cval cd cls k v))
           = Inr (fold (upd_item cd cls) items (self(storage cls k \<mapsto> cval cd cls k v)))"
    using Cons.IH Cons.prems by simp
  show ?case
  proof (cases "k \<in> set (slots cls)")
    case True
    then have s: "storage cls k = k" by (simp add: storage_def)
    show ?thesis using True t rest
      by (simp add: kv w(1) s ebind_def upd_item_pair)
  next
    case False
    then have s: "storage cls k = CHR ''_'' # k" by (simp add: storage_def)
    from False w(3) have ex: "k \<in> set (slots_ex cls)" by simp
    show ?thesis using False ex t rest
      by (simp add: kv w(1) s ebind_def upd_item_pair)
  qed
qed

lemma storage_inj:
  assumes "take 1 k \<noteq> ''_''" "take 1 j \<noteq> ''_''" "storage cls k = storage cls j"
  shows "k = j"
  using assms by (cases k; cases j) (auto simp: storage_def split: if_splits)

lemma fold_upd_lookup:
  assumes "distinct (map fst items)" "\<forall>kv \<in> set items. take 1 (fst kv) \<noteq> ''_''" "take 1 k \<noteq> ''_''"
  shows "fold (upd_item cd cls) items self (storage cls k)
           = (case map_of items k of Some v \<Rightarrow> Some (cval cd cls k v) | None \<Rightarrow> self (storage cls k))"
  using assms(1,2)
proof (induction items arbitrary: self)
  case Nil
  show ?case by simp
next
  case (Cons kv items)
  obtain k1 v1 where kv: "kv = (k1, v1)" by (cases kv) auto
  from Cons.prems kv have d: "distinct (map fst items)" "k1 \<notin> fst ` set items"
    and u: "\<forall>kv \<in> set items. take 1 (fst kv) \<noteq> ''_''" "take 1 k1 \<noteq> ''_''" by auto
  have ih: "fold (upd_item cd cls) items (upd_item cd cls kv self) (storage cls k)
           = (case map_of items k of Some v \<Rightarrow> Some (cval cd cls k v)
              | None \<Rightarrow> (upd_item cd cls kv self) (storage cls k))"
    by (rule Cons.IH [OF d(1) u(1)])
  show ?case
  proof (cases "k = k1")
    case True
    with d(2) have "map_of items k = None" by (simp add: map_of_eq_None_iff)
    with ih True kv show ?thesis by (simp add: upd_item_pair)
  next
    case False
    then have "storage cls k \<noteq> storage cls k1"
      using storage_inj [OF assms(3) u(2)] by blast
    with ih False kv show ?thesis by (simp add: upd_item_pair split: option.splits)
  qed
qed

lemma concat_map_filter:
  "\<forall>x \<in> set xs. \<not> P x \<longrightarrow> f x = [] \<Longrightarrow> concat (map f xs) = concat (map f (filter P xs))"
  by (induction xs) auto

lemma meta_round_trip_wf:
  assumes wf: "wf_class cls"
    and ord: "filter (\<lambda>k. k \<in> set (map fst items)) (public_slots cls) = map fst items"
    and can: "\<forall>(k, v) \<in> set items. canonical_value cd cls k v"
  shows "meta_round_trip cd cls (encode_items items) = Inr (encode_items items)"
proof -
  define G where "G = (\<lambda>k. case map_of items k of None \<Rightarrow> []
                          | Some v \<Rightarrow> wire_name k @ '': '' @ v @ [NEWLINE])"
  define a where "a = fold (upd_item cd cls) items (Map.empty :: ('a, 'b) md_instance)"
  have sub: "set (map fst items) \<subseteq> set (public_slots cls)"
    using ord by (metis filter_is_subset)
  have dist: "distinct (map fst items)"
    using wf ord by (metis distinct_filter wf_class_def)
  have pub: "\<And>k v. (k, v) \<in> set items \<Longrightarrow> k \<in> set (public_slots cls)"
    using sub by force
  have und: "\<forall>kv \<in> set items. take 1 (fst kv) \<noteq> ''_''"
  proof
    fix kv assume "kv \<in> set items"
    then have "fst kv \<in> set (public_slots cls)" using sub by force
    from wf_public(4) [OF wf this] show "take 1 (fst kv) \<noteq> ''_''" .
  qed
  have m: "meta_finditer (encode_items items) = map (\<lambda>(k, v). (wire_name k, v)) items"
  proof (rule meta_finditer_items, clarify)
    fix k v assume kv: "(k, v) \<in> set items"
    from can kv have "canonical_value cd cls k v" by blast
    then have "NEWLINE \<notin> set v" "meta_match v = None" by (simp_all add: canonical_value_def)
    with wf_public(2) [OF wf pub [OF kv]]
    show "NEWLINE \<notin> set (wire_name k) \<and> NEWLINE \<notin> set v \<and> meta_match v = None" by simp
  qed
  have dec: "MetaData_from_text cd cls (encode_items items) = Inr a"
    unfolding MetaData_from_text_def m a_def
    by (rule from_text_loop_items [OF wf]) (use can pub in blast)
  have look: "\<And>k. take 1 k \<noteq> ''_'' \<Longrightarrow>
      getattr cls a k = (case map_of items k of Some v \<Rightarrow> Some (cval cd cls k v) | None \<Rightarrow> None)"
    unfolding getattr_def a_def using fold_upd_lookup [OF dist und] by simp
  have F: "\<And>k. k \<in> set (public_slots cls) \<Longrightarrow> as_text_field cd cls a k = G k"
  proof -
    fix k assume k: "k \<in> set (public_slots cls)"
    note u = wf_public(4) [OF wf k]
    show "as_text_field cd cls a k = G k"
    proof (cases "map_of items k")
      case None
      with look [OF u] show ?thesis by (simp add: as_text_field_def G_def)
    next
      case (Some v)
      then have "(k, v) \<in> set items" by (rule map_of_SomeD)
      with can have "canonical_value cd cls k v" by blast
      from canonical_coerce [OF this] have "render cd (cval cd cls k v) = v" by blast
      with look [OF u] Some u show ?thesis by (simp add: as_text_field_def G_def)
    qed
  qed
  have hid: "\<forall>k \<in> set (all_slots cls). \<not> take 1 k \<noteq> ''_'' \<longrightarrow> as_text_field cd cls a k = []"
    by (simp add: as_text_field_def split: option.splits)
  have "MetaData_as_text cd cls a [] = concat (map (as_text_field cd cls a) (all_slots cls))"
    by (simp add: MetaData_as_text_def)
  also have "\<dots> = concat (map (as_text_field cd cls a) (public_slots cls))"
    unfolding public_slots_def by (rule concat_map_filter [OF hid])
  also have "\<dots> = concat (map G (public_slots cls))"
    using F by (metis (mono_tags, lifting) map_eq_conv)
  also have "\<dots> = concat (map G (filter (\<lambda>k. k \<in> set (map fst items)) (public_slots cls)))"
  proof (rule concat_map_filter, intro ballI impI)
    fix k assume "k \<notin> set (map fst items)"
    then have "map_of items k = None" by (simp add: map_of_eq_None_iff)
    then show "G k = []" by (simp add: G_def)
  qed
  also have "\<dots> = concat (map G (map fst items))" unfolding ord ..
  also have "\<dots> = encode_items items"
  proof -
    have "map G (map fst items) = map (\<lambda>(k, v). wire_name k @ '': '' @ v @ [NEWLINE]) items"
    proof (simp only: map_map, rule map_cong [OF refl])
      fix kv assume kv: "kv \<in> set items"
      obtain k v where e: "kv = (k, v)" by (cases kv) auto
      with kv dist have "map_of items k = Some v" by simp
      with e show "(G \<circ> fst) kv = (case kv of (k, v) \<Rightarrow> wire_name k @ '': '' @ v @ [NEWLINE])"
        by (simp add: G_def)
    qed
    then show ?thesis by (simp only: encode_items_def)
  qed
  finally have enc: "MetaData_as_text cd cls a [] = encode_items items" .
  show ?thesis by (simp add: meta_round_trip_def dec ebind_def enc)
qed

text \<open>
  C2 (as amended). Take a \<open>ScriptInfo\<close> or \<open>ProjectGarbage\<close> text block made of
  lines \<open>Name: Value\<close>, each ended by a newline, for distinct public fields in the
  declaration order of the class, each name written the way \<open>as_text\<close> writes it
  and each value in canonical form (no newline and no colon followed by a blank
  inside, accepted by the constructor of the field's type, and written back by
  \<open>as_text\<close> as the same text). Decoding it with \<open>from_text\<close> succeeds, and encoding
  the record with \<open>as_text\<close> and no comment gives the same text, byte for byte.
\<close>

theorem meta_round_trip_canonical:
  assumes "cls = ScriptInfo_cls \<or> cls = ProjectGarbage_cls"
    and "filter (\<lambda>k. k \<in> set (map fst items)) (public_slots cls) = map fst items"
    and "\<forall>(k, v) \<in> set items. canonical_value cd cls k v"
  shows "meta_round_trip cd cls (encode_items items) = Inr (encode_items items)"
proof -
  have "wf_class cls" using assms(1) wf_ScriptInfo wf_ProjectGarbage by blast
  from meta_round_trip_wf [OF this assms(2) assms(3)] show ?thesis .
qed

theorem meta_round_trip_canonical_witness:
  "filter (\<lambda>k. k \<in> set (map fst sample_items)) (public_slots ScriptInfo_cls) = map fst sample_items
   \<and> list_all (\<lambda>(k, v). canonical_value sample_codecs ScriptInfo_cls k v) sample_items
   \<and> meta_round_trip sample_codecs ScriptInfo_cls (encode_items sample_items)
        = Inr (encode_items sample_items)"
proof -
  have a: "filter (\<lambda>k. k \<in> set (map fst sample_items)) (public_slots ScriptInfo_cls) = map fst sample_items"
    by code_simp
  have b: "\<forall>(k, v) \<in> set sample_items. canonical_value sample_codecs ScriptInfo_cls k v"
    by code_simp
  from meta_round_trip_canonical [of ScriptInfo_cls sample_items sample_codecs, OF _ a b] a b
  show ?thesis by (simp add: list_all_iff)
qed

text \<open>
  C2 as stated fails: \<open>as_text\<close> writes the fields in the declaration order of the
  class, not in the order of the text, so a block that names \<open>ScriptType\<close> before
  \<open>Title\<close> comes back with the two lines exchanged, although both keys are
  recognised. Likewise a value is written back in the form of its type
  (\<open>007\<close> as \<open>7\<close>), a key given twice is written once, a last line without newline
  gets one, and a name in another spelling is written in the spelling of
  \<open>as_text\<close>.
\<close>

theorem meta_round_trip_counterexample:
  "meta_round_trip sample_codecs ScriptInfo_cls (''ScriptType: v4.00+'' @ [NEWLINE] @ ''Title: x'' @ [NEWLINE])
     = Inr (''Title: x'' @ [NEWLINE] @ ''ScriptType: v4.00+'' @ [NEWLINE])
   \<and> meta_round_trip sample_codecs ScriptInfo_cls (''ScriptType: v4.00+'' @ [NEWLINE] @ ''Title: x'' @ [NEWLINE])
     \<noteq> Inr (''ScriptType: v4.00+'' @ [NEWLINE] @ ''Title: x'' @ [NEWLINE])
   \<and> meta_round_trip sample_codecs ScriptInfo_cls (''WrapStyle: 007'' @ [NEWLINE])
     = Inr (''WrapStyle: 7'' @ [NEWLINE])
   \<and> meta_round_trip sample_codecs ScriptInfo_cls (''Title: a'' @ [NEWLINE] @ ''Title: b'' @ [NEWLINE])
     = Inr (''Title: b'' @ [NEWLINE])
   \<and> meta_round_trip sample_codecs ScriptInfo_cls ''Title: x'' = Inr (''Title: x'' @ [NEWLINE])
   \<and> meta_round_trip sample_codecs ScriptInfo_cls (''title: x'' @ [NEWLINE]) = Inr (''Title: x'' @ [NEWLINE])"
  by code_simp

end
